theory Spec2Isabelle
  imports Main
begin

section \<open>Python values, exceptions and strings\<close>

text \<open>
  The values \<^verbatim>\<open>json.loads\<close> can return, which are also the dynamically typed values
  \<^verbatim>\<open>clean_json_response\<close> may be handed. A float is kept as a decimal significand and
  exponent; a dict is an association list read with \<open>map_of\<close>.
\<close>

datatype pyval =
    PyNone
  | PyBool bool
  | PyInt int
  | PyFloat int int
  | PyStr string
  | PyList "pyval list"
  | PyDict "(string \<times> pyval) list"

text \<open>
  The exception classes that decide which \<^verbatim>\<open>except\<close> clause of the command catches what.
  \<open>KeyboardInterrupt\<close> stands for the classes below \<^verbatim>\<open>BaseException\<close> only.
\<close>

datatype exn_class =
    ValueError
  | JSONDecodeError
  | PydanticValidationError
  | TypeError
  | RequestException
  | HTTPError
  | DoesNotExist
  | MultipleObjectsReturned
  | DjangoValidationError
  | DatabaseError
  | OtherException
  | KeyboardInterrupt

datatype exn = Exn exn_class string

fun exn_msg :: "exn \<Rightarrow> string" where
  "exn_msg (Exn c m) = m"

text \<open>\<open>is_subclass c d\<close>: an exception of class \<open>c\<close> is caught by \<^verbatim>\<open>except d\<close>.\<close>

fun is_subclass :: "exn_class \<Rightarrow> exn_class \<Rightarrow> bool" where
  "is_subclass KeyboardInterrupt d = (d = KeyboardInterrupt)"
| "is_subclass c OtherException = True"
| "is_subclass JSONDecodeError d = (d = JSONDecodeError \<or> d = ValueError)"
| "is_subclass PydanticValidationError d = (d = PydanticValidationError \<or> d = ValueError)"
| "is_subclass HTTPError d = (d = HTTPError \<or> d = RequestException)"
| "is_subclass c d = (c = d)"

text \<open>\<^verbatim>\<open>except Exception\<close> is \<open>catches OtherException\<close>: every class but the base-only ones.\<close>

fun catches :: "exn_class \<Rightarrow> exn \<Rightarrow> bool" where
  "catches d (Exn c m) = is_subclass c d"

subsection \<open>\<^verbatim>\<open>str.find\<close>, \<^verbatim>\<open>str.rfind\<close> and slicing\<close>

text \<open>\<^verbatim>\<open>text.find(c)\<close>: the lowest index of \<open>c\<close>, or \<open>-1\<close>.\<close>

fun str_find :: "char \<Rightarrow> string \<Rightarrow> int" where
  "str_find c [] = -1"
| "str_find c (x # xs) =
     (if x = c then 0
      else (let r = str_find c xs in if r = -1 then -1 else r + 1))"

text \<open>\<^verbatim>\<open>text.rfind(c)\<close>: the highest index of \<open>c\<close>, or \<open>-1\<close>.\<close>

fun str_rfind :: "char \<Rightarrow> string \<Rightarrow> int" where
  "str_rfind c [] = -1"
| "str_rfind c (x # xs) =
     (let r = str_rfind c xs in
      if r \<noteq> -1 then r + 1 else if x = c then 0 else -1)"

text \<open>
  \<^verbatim>\<open>text[a:b]\<close>: a negative bound counts from the end, both bounds are clamped to the
  string, and an empty range gives the empty string.
\<close>

definition py_slice :: "string \<Rightarrow> int \<Rightarrow> int \<Rightarrow> string" where
  "py_slice xs a b =
     (let n = int (length xs);
          lo = (if a < 0 then max (a + n) 0 else min a n);
          hi = (if b < 0 then max (b + n) 0 else min b n)
      in take (nat (hi - lo)) (drop (nat lo) xs))"

section \<open>The response validator's extraction (scrape\_news.py, lines 24-35)\<close>

text \<open>\<open>None\<close> is Python's \<^verbatim>\<open>None\<close>.\<close>

fun clean_json_response :: "pyval \<Rightarrow> string option" where
  "clean_json_response (PyStr text) =
     (let json_start = str_find (CHR ''{'') text;
          json_end = str_rfind (CHR ''}'') text
      in if json_start = -1 \<or> json_end = -1 then None
         else Some (py_slice text json_start (json_end + 1)))"
| "clean_json_response v = None"

section \<open>The data model (models.py)\<close>

type_synonym date = nat

text \<open>
  A row of \<^verbatim>\<open>NewsArticlePage\<close>: the page's own fields (models.py, lines 8-11) and the
  fields of the page tree it inherits that the command writes. \<open>page_id\<close> is the primary
  key, \<open>0\<close> while the instance is unsaved; \<open>parent_id\<close> is the key of the page it hangs under.
\<close>

record NewsArticlePage =
  page_id :: nat
  parent_id :: nat
  title :: string
  slug :: string
  publication_date :: date
  summary :: string
  source_url :: string
  source_name :: string

record NewsListPage =
  list_page_id :: nat

record ScrapingSource =
  name :: string
  url_to_scrape :: string
  base_url :: string
  html_selector :: string
  is_active :: bool

text \<open>The pydantic schema (scrape\_news.py, lines 16-22).\<close>

record Article =
  article_title :: string
  article_summary :: string
  article_source_url :: string

section \<open>The world the command runs in\<close>

datatype level = ERROR | INFO

text \<open>
  Everything the command does to the outside is an event of the trace, in order: a log
  record, an HTTP request, a call of the model, and each call into the page store
  (recorded when it is made, whether or not it then raises).
\<close>

datatype event =
    Log level string
  | HttpGet string
  | GenerateContent string
  | DbGet string
  | DbSave NewsArticlePage
  | DbAddChild nat NewsArticlePage

record world =
  pages :: "NewsArticlePage list"
  trace :: "event list"

record http_response =
  status_code :: nat
  content :: string

record gen_response =
  parts :: "string list"
  response_text :: "exn + string"
  prompt_feedback :: string

text \<open>
  What the command reads from its surroundings and the libraries it calls, as parameters.
  A call that can answer differently each time takes the trace so far as its first
  argument. \<open>select_one\<close> is \<^verbatim>\<open>BeautifulSoup(content, 'html.parser').select_one(selector)\<close>;
  \<open>HttpUrl\<close> is pydantic's validator, giving the string \<^verbatim>\<open>str(url)\<close> of an accepted URL;
  \<open>db_error\<close> is any exception the page store raises on a write beyond the constraints that
  models.py declares (a slug already used under the parent, a lost connection).
\<close>

record env =
  GOOGLE_API_KEY :: "string option"
  scraping_sources :: "ScrapingSource list"
  live_list_pages :: "NewsListPage list"
  requests_get :: "event list \<Rightarrow> string \<Rightarrow> exn + http_response"
  select_one :: "string \<Rightarrow> string \<Rightarrow> exn + string option"
  prettify :: "string \<Rightarrow> string"
  generate_content :: "event list \<Rightarrow> string \<Rightarrow> exn + gen_response"
  json_loads :: "string \<Rightarrow> exn + pyval"
  HttpUrl :: "string \<Rightarrow> string option"
  today :: "event list \<Rightarrow> date"
  py_hash :: "string \<Rightarrow> int"
  db_error :: "event list \<Rightarrow> NewsArticlePage list \<Rightarrow> NewsArticlePage \<Rightarrow> exn option"

definition emit :: "event \<Rightarrow> world \<Rightarrow> world" where
  "emit e w = w\<lparr>trace := trace w @ [e]\<rparr>"

definition logger_error :: "string \<Rightarrow> world \<Rightarrow> world" where
  "logger_error msg = emit (Log ERROR msg)"

definition logger_info :: "string \<Rightarrow> world \<Rightarrow> world" where
  "logger_info msg = emit (Log INFO msg)"

abbreviation sq :: string where
  "sq \<equiv> [CHR 0x27]"

abbreviation dq :: string where
  "dq \<equiv> [CHR 0x22]"

abbreviation nl :: string where
  "nl \<equiv> [CHR 0x0A]"

subsection \<open>Decimal numerals, for the slug\<close>

definition digit_char :: "nat \<Rightarrow> char" where
  "digit_char d = (if d < 10 then ''0123456789'' ! d else CHR ''?'')"

function str_nat :: "nat \<Rightarrow> string" where
  "str_nat n = (if n < 10 then [digit_char n] else str_nat (n div 10) @ [digit_char (n mod 10)])"
  by pat_completeness auto
termination
  by (relation "measure id") auto

declare str_nat.simps [simp del]

section \<open>Schema validation (scrape\_news.py, lines 16-22 and 110)\<close>

text \<open>
  \<^verbatim>\<open>Article\<close> has three required fields: \<^verbatim>\<open>title: str\<close>, \<^verbatim>\<open>summary: str\<close> and
  \<^verbatim>\<open>source_url: HttpUrl\<close>. Of the values \<^verbatim>\<open>json.loads\<close> returns, a \<^verbatim>\<open>str\<close> field takes a
  string and nothing else, and so does \<^verbatim>\<open>HttpUrl\<close>; keys the schema does not name are
  ignored. pydantic reports every violation at once; the model keeps the exception's
  class and a fixed message.
\<close>

definition schema_error :: exn where
  "schema_error = Exn PydanticValidationError ''validation error for ArticleList''"

definition validate_Article :: "env \<Rightarrow> pyval \<Rightarrow> exn + Article" where
  "validate_Article env v =
     (case v of
        PyDict kv \<Rightarrow>
          (case (map_of kv ''title'', map_of kv ''summary'', map_of kv ''source_url'') of
             (Some (PyStr t), Some (PyStr s), Some (PyStr u)) \<Rightarrow>
               (case HttpUrl env u of
                  Some u' \<Rightarrow>
                    Inr \<lparr>article_title = t, article_summary = s, article_source_url = u'\<rparr>
                | None \<Rightarrow> Inl schema_error)
           | _ \<Rightarrow> Inl schema_error)
      | _ \<Rightarrow> Inl schema_error)"

fun validate_items :: "env \<Rightarrow> pyval list \<Rightarrow> exn + Article list" where
  "validate_items env [] = Inr []"
| "validate_items env (v # vs) =
     (case validate_Article env v of
        Inl e \<Rightarrow> Inl e
      | Inr a \<Rightarrow>
          (case validate_items env vs of
             Inl e \<Rightarrow> Inl e
           | Inr as \<Rightarrow> Inr (a # as)))"

text \<open>
  \<^verbatim>\<open>ArticleList(**parsed_data)\<close>: unpacking anything but a mapping is a \<^verbatim>\<open>TypeError\<close>;
  the one field, \<^verbatim>\<open>articles: List[Article]\<close>, is required and takes a list.
\<close>

definition validate_ArticleList :: "env \<Rightarrow> pyval \<Rightarrow> exn + Article list" where
  "validate_ArticleList env parsed_data =
     (case parsed_data of
        PyDict kv \<Rightarrow>
          (case map_of kv ''articles'' of
             Some (PyList items) \<Rightarrow> validate_items env items
           | _ \<Rightarrow> Inl schema_error)
      | _ \<Rightarrow> Inl (Exn TypeError ''argument after ** must be a mapping''))"

section \<open>The page store\<close>

text \<open>
  \<^verbatim>\<open>NewsArticlePage.objects.get(source_url=url)\<close>: the one row with that URL;
  \<^verbatim>\<open>DoesNotExist\<close> when there is none, \<^verbatim>\<open>MultipleObjectsReturned\<close> when there are several.
\<close>

definition objects_get :: "string \<Rightarrow> world \<Rightarrow> (exn + NewsArticlePage) \<times> world" where
  "objects_get url w =
     (let w1 = emit (DbGet url) w in
      case filter (\<lambda>p. source_url p = url) (pages w) of
        [] \<Rightarrow> (Inl (Exn DoesNotExist ''NewsArticlePage matching query does not exist.''), w1)
      | [p] \<Rightarrow> (Inr p, w1)
      | _ \<Rightarrow> (Inl (Exn MultipleObjectsReturned ''get() returned more than one NewsArticlePage''), w1))"

text \<open>
  The constraints models.py (line 10) declares on \<^verbatim>\<open>source_url\<close>: at most 255 characters,
  and unique among the other rows.
\<close>

definition constraint_error :: "NewsArticlePage list \<Rightarrow> NewsArticlePage \<Rightarrow> exn option" where
  "constraint_error others p =
     (if 255 < length (source_url p)
      then Some (Exn DjangoValidationError ''source_url: ensure this value has at most 255 characters'')
      else if list_ex (\<lambda>q. source_url q = source_url p) others
      then Some (Exn DjangoValidationError ''source_url: a page with this source url already exists'')
      else None)"

text \<open>\<^verbatim>\<open>page.save()\<close>: writes the row with the instance's primary key.\<close>

definition page_save :: "env \<Rightarrow> NewsArticlePage \<Rightarrow> world \<Rightarrow> (exn + unit) \<times> world" where
  "page_save env p w =
     (let w1 = emit (DbSave p) w in
      case constraint_error (filter (\<lambda>q. page_id q \<noteq> page_id p) (pages w)) p of
        Some e \<Rightarrow> (Inl e, w1)
      | None \<Rightarrow>
          (case db_error env (trace w) (pages w) p of
             Some e \<Rightarrow> (Inl e, w1)
           | None \<Rightarrow>
               (Inr (), w1\<lparr>pages := map (\<lambda>q. if page_id q = page_id p then p else q) (pages w)\<rparr>)))"

definition fresh_id :: "NewsArticlePage list \<Rightarrow> nat" where
  "fresh_id ps = Suc (fold max (map page_id ps) 0)"

text \<open>
  \<^verbatim>\<open>news_list_page.add_child(instance=new_page)\<close>: inserts the instance as a new row under
  the list page, with a fresh primary key.
\<close>

definition add_child :: "env \<Rightarrow> NewsListPage \<Rightarrow> NewsArticlePage \<Rightarrow> world \<Rightarrow> (exn + unit) \<times> world" where
  "add_child env news_list_page new_page w =
     (let w1 = emit (DbAddChild (list_page_id news_list_page) new_page) w in
      case constraint_error (pages w) new_page of
        Some e \<Rightarrow> (Inl e, w1)
      | None \<Rightarrow>
          (case db_error env (trace w) (pages w) new_page of
             Some e \<Rightarrow> (Inl e, w1)
           | None \<Rightarrow>
               (Inr (), w1\<lparr>pages := pages w @
                  [new_page\<lparr>page_id := fresh_id (pages w),
                            parent_id := list_page_id news_list_page\<rparr>]\<rparr>)))"

section \<open>The command (scrape\_news.py, lines 37-131)\<close>

subsection \<open>The upsert loop (lines 115-131)\<close>

text \<open>
  The body of the \<^verbatim>\<open>for\<close> loop. The \<^verbatim>\<open>try\<close> block holds the lookup, the two
  assignments, \<^verbatim>\<open>save()\<close> and the log line; its one handler is
  \<^verbatim>\<open>except NewsArticlePage.DoesNotExist\<close>, and \<^verbatim>\<open>add_child\<close> is called inside that
  handler, under no \<^verbatim>\<open>try\<close> of its own.
\<close>

definition new_article_page :: "env \<Rightarrow> event list \<Rightarrow> Article \<Rightarrow> NewsArticlePage" where
  "new_article_page env tr article_data =
     \<lparr>page_id = 0, parent_id = 0,
      title = article_title article_data,
      slug = ''article-gemini-'' @ str_nat (nat (py_hash env (article_title article_data) mod 100000)),
      publication_date = today env tr,
      summary = article_summary article_data,
      source_url = article_source_url article_data,
      source_name = []\<rparr>"

definition upsert_article :: "env \<Rightarrow> NewsListPage \<Rightarrow> Article \<Rightarrow> world \<Rightarrow> (exn + unit) \<times> world" where
  "upsert_article env news_list_page article_data w =
     (let attempt =
        (case objects_get (article_source_url article_data) w of
           (Inl e, w1) \<Rightarrow> (Inl e, w1)
         | (Inr existing_page, w1) \<Rightarrow>
             (let existing_page' = existing_page\<lparr>title := article_title article_data,
                                                 summary := article_summary article_data\<rparr>
              in case page_save env existing_page' w1 of
                   (Inl e, w2) \<Rightarrow> (Inl e, w2)
                 | (Inr u, w2) \<Rightarrow>
                     (Inr (), logger_info (''Updated: '' @ sq @ title existing_page' @ sq) w2)))
      in case attempt of
           (Inr u, w') \<Rightarrow> (Inr (), w')
         | (Inl e, w') \<Rightarrow>
             if catches DoesNotExist e then
               (let new_page = new_article_page env (trace w') article_data
                in case add_child env news_list_page new_page w' of
                     (Inl e', w'') \<Rightarrow> (Inl e', w'')
                   | (Inr u, w'') \<Rightarrow>
                       (Inr (), logger_info (''Added: '' @ sq @ title new_page @ sq) w''))
             else (Inl e, w'))"

fun upsert_all :: "env \<Rightarrow> NewsListPage \<Rightarrow> Article list \<Rightarrow> world \<Rightarrow> (exn + unit) \<times> world" where
  "upsert_all env news_list_page [] w = (Inr (), w)"
| "upsert_all env news_list_page (article_data # rest) w =
     (case upsert_article env news_list_page article_data w of
        (Inl e, w') \<Rightarrow> (Inl e, w')
      | (Inr u, w') \<Rightarrow> upsert_all env news_list_page rest w')"

subsection \<open>Fetching (lines 75-86)\<close>

text \<open>\<^verbatim>\<open>response.raise_for_status()\<close> raises \<^verbatim>\<open>HTTPError\<close> on a 4xx or 5xx status.\<close>

definition raise_for_status :: "http_response \<Rightarrow> exn + unit" where
  "raise_for_status response =
     (if 400 \<le> status_code response \<and> status_code response < 600
      then Inl (Exn HTTPError (str_nat (status_code response) @ '' Error''))
      else Inr ())"

text \<open>
  The first \<^verbatim>\<open>try\<close> block. The result \<open>Inr None\<close> is the \<^verbatim>\<open>return\<close> after an error was
  logged, \<open>Inr (Some html)\<close> goes on with the snippet, \<open>Inl e\<close> is an exception the one
  handler, \<^verbatim>\<open>except requests.exceptions.RequestException\<close>, does not catch.
\<close>

definition fetch_snippet :: "env \<Rightarrow> ScrapingSource \<Rightarrow> world \<Rightarrow> (exn + string option) \<times> world" where
  "fetch_snippet env source w =
     (let w1 = emit (HttpGet (url_to_scrape source)) w;
          body =
            (case requests_get env (trace w) (url_to_scrape source) of
               Inl e \<Rightarrow> Inl e
             | Inr response \<Rightarrow>
                 (case raise_for_status response of
                    Inl e \<Rightarrow> Inl e
                  | Inr u \<Rightarrow>
                      (case select_one env (content response) (html_selector source) of
                         Inl e \<Rightarrow> Inl e
                       | Inr None \<Rightarrow> Inr None
                       | Inr (Some main_content) \<Rightarrow> Inr (Some (prettify env main_content)))))
      in case body of
           Inl e \<Rightarrow>
             if catches RequestException e
             then (Inr None, logger_error (''URL fetch error: '' @ exn_msg e) w1)
             else (Inl e, w1)
         | Inr None \<Rightarrow>
             (Inr None,
              logger_error (''Could not find selector '' @ sq @ html_selector source @ sq @ '' on page.'') w1)
         | Inr (Some html_snippet) \<Rightarrow> (Inr (Some html_snippet), w1))"

subsection \<open>Asking the model and validating its answer (lines 88-113)\<close>

definition prompt_text :: "ScrapingSource \<Rightarrow> string \<Rightarrow> string" where
  "prompt_text source html_snippet =
     nl @ ''        Analyze the following HTML content. Extract the 20 most recent articles.''
     @ nl @ ''        Your response MUST be a single, valid JSON object.''
     @ nl @ ''        The JSON object must have one key: '' @ dq @ ''articles'' @ dq
          @ '', a list of objects, each with keys: '' @ dq @ ''title'' @ dq @ '', ''
          @ dq @ ''summary'' @ dq @ '', '' @ dq @ ''source_url'' @ dq @ ''.''
     @ nl @ ''        The summary should describe the article as briefly as possible while capturing the main idea.''
     @ nl @ ''        Resolve all URLs to be absolute, using '' @ sq @ base_url source @ sq @ '' as the base.''
     @ nl @ ''        HTML: '' @ html_snippet
     @ nl @ ''        ''"

definition gemini_failed :: "exn \<Rightarrow> world \<Rightarrow> (exn + Article list option) \<times> world" where
  "gemini_failed e w =
     (if catches OtherException e
      then (Inr None, logger_error (''Gemini processing failed: '' @ exn_msg e) w)
      else (Inl e, w))"

text \<open>
  The second \<^verbatim>\<open>try\<close> block, whose handler is \<^verbatim>\<open>except Exception\<close> (\<open>gemini_failed\<close>).
  \<open>Inr None\<close> is a \<^verbatim>\<open>return\<close> after logging, \<open>Inr (Some articles)\<close> goes on to the loop.
\<close>

definition extract_articles :: "env \<Rightarrow> ScrapingSource \<Rightarrow> string \<Rightarrow> world \<Rightarrow> (exn + Article list option) \<times> world" where
  "extract_articles env source html_snippet w =
     (let prompt = prompt_text source html_snippet;
          w1 = emit (GenerateContent prompt) w
      in case generate_content env (trace w) prompt of
           Inl e \<Rightarrow> gemini_failed e w1
         | Inr response \<Rightarrow>
             if parts response = [] then
               (Inr None,
                logger_error (''Reason: '' @ prompt_feedback response)
                  (logger_error ''Gemini returned an empty response.'' w1))
             else
               (case response_text response of
                  Inl e \<Rightarrow> gemini_failed e w1
                | Inr text \<Rightarrow>
                    (case clean_json_response (PyStr text) of
                       None \<Rightarrow>
                         (Inr None,
                          logger_error (''--- RAW RESPONSE ---'' @ nl @ text @ nl @ ''---'')
                            (logger_error ''Could not find a valid JSON object in Gemini's response.'' w1))
                     | Some cleaned_response \<Rightarrow>
                         (case json_loads env cleaned_response of
                            Inl e \<Rightarrow> gemini_failed e w1
                          | Inr parsed_data \<Rightarrow>
                              (case validate_ArticleList env parsed_data of
                                 Inl e \<Rightarrow> gemini_failed e w1
                               | Inr articles \<Rightarrow> (Inr (Some articles), w1))))))"

subsection \<open>One source (lines 74-131)\<close>

definition scrape_source :: "env \<Rightarrow> ScrapingSource \<Rightarrow> NewsListPage \<Rightarrow> world \<Rightarrow> (exn + unit) \<times> world" where
  "scrape_source env source news_list_page w =
     (case fetch_snippet env source w of
        (Inl e, w1) \<Rightarrow> (Inl e, w1)
      | (Inr None, w1) \<Rightarrow> (Inr (), w1)
      | (Inr (Some html_snippet), w1) \<Rightarrow>
          (case extract_articles env source html_snippet w1 of
             (Inl e, w2) \<Rightarrow> (Inl e, w2)
           | (Inr None, w2) \<Rightarrow> (Inr (), w2)
           | (Inr (Some articles), w2) \<Rightarrow> upsert_all env news_list_page articles w2))"

subsection \<open>The run (lines 45-72)\<close>

text \<open>
  Lines 46-53: \<^verbatim>\<open>not api_key\<close> holds for a variable that is unset or empty;
  \<^verbatim>\<open>genai.configure\<close> only stores the key.
\<close>

definition configure :: "env \<Rightarrow> exn + unit" where
  "configure env =
     (case GOOGLE_API_KEY env of
        None \<Rightarrow> Inl (Exn ValueError ''GOOGLE_API_KEY not found.'')
      | Some api_key \<Rightarrow>
          if api_key = [] then Inl (Exn ValueError ''GOOGLE_API_KEY not found.'') else Inr ())"

text \<open>
  The lookup \<^verbatim>\<open>name__iexact\<close>: equality after folding the letters \<open>A\<close> to \<open>Z\<close> to lower
  case, which sets the bit of value 32 in the letter's code (letters outside ASCII are
  compared as they are).
\<close>

definition lower_char :: "char \<Rightarrow> char" where
  "lower_char c =
     (let n = (of_char c :: nat) in
      if 65 \<le> n \<and> n \<le> 90
      then (case c of Char b0 b1 b2 b3 b4 b5 b6 b7 \<Rightarrow> Char b0 b1 b2 b3 b4 True b6 b7)
      else c)"

definition iexact :: "string \<Rightarrow> string \<Rightarrow> bool" where
  "iexact a b = (map lower_char a = map lower_char b)"

text \<open>
  Lines 55-61. \<open>Inl n\<close> is the empty result for the source named \<open>n\<close>. The option
  \<^verbatim>\<open>--source\<close> is \<open>None\<close> when not given; an empty name is falsy and counts as not given.
\<close>

definition resolve_sources :: "env \<Rightarrow> string option \<Rightarrow> string + ScrapingSource list" where
  "resolve_sources env source_option =
     (case source_option of
        None \<Rightarrow> Inr (filter is_active (scraping_sources env))
      | Some n \<Rightarrow>
          if n = [] then Inr (filter is_active (scraping_sources env))
          else (let sources = filter (\<lambda>s. iexact (name s) n \<and> is_active s) (scraping_sources env)
                in if sources = [] then Inl n else Inr sources))"

text \<open>\<^verbatim>\<open>NewsListPage.objects.live().first()\<close>\<close>

definition first_live :: "env \<Rightarrow> NewsListPage option" where
  "first_live env = (case live_list_pages env of [] \<Rightarrow> None | p # ps \<Rightarrow> Some p)"

text \<open>The loop of lines 68-70: an exception out of \<open>scrape_source\<close> ends it.\<close>

fun scrape_all :: "env \<Rightarrow> NewsListPage \<Rightarrow> ScrapingSource list \<Rightarrow> world \<Rightarrow> (exn + unit) \<times> world" where
  "scrape_all env news_list_page [] w = (Inr (), w)"
| "scrape_all env news_list_page (source # rest) w =
     (case scrape_source env source news_list_page
             (logger_info (''Scraping source: '' @ name source) w) of
        (Inl e, w') \<Rightarrow> (Inl e, w')
      | (Inr u, w') \<Rightarrow> scrape_all env news_list_page rest w')"

definition handle :: "env \<Rightarrow> string option \<Rightarrow> world \<Rightarrow> (exn + unit) \<times> world" where
  "handle env source_option w =
     (case configure env of
        Inl e \<Rightarrow>
          if catches ValueError e
          then (Inr (), logger_error (''Config failed: '' @ exn_msg e) w)
          else (Inl e, w)
      | Inr u \<Rightarrow>
          (case resolve_sources env source_option of
             Inl n \<Rightarrow>
               (Inr (), logger_error (''No active source named '' @ sq @ n @ sq @ '' found.'') w)
           | Inr sources \<Rightarrow>
               (case first_live env of
                  None \<Rightarrow>
                    (Inr (),
                     logger_error (''A '' @ sq @ ''NewsListPage'' @ sq @ '' must be created in Wagtail first.'') w)
                | Some news_list_page \<Rightarrow>
                    (case scrape_all env news_list_page sources w of
                       (Inl e, w') \<Rightarrow> (Inl e, w')
                     | (Inr u, w') \<Rightarrow>
                         (Inr (), logger_info ''All scraping tasks complete.'' w')))))"

section \<open>What the store keeps\<close>

text \<open>
  The constraints of the table: \<^verbatim>\<open>source_url\<close> unique and at most 255 characters
  (models.py, line 10), primary keys unique.
\<close>

definition store_ok :: "NewsArticlePage list \<Rightarrow> bool" where
  "store_ok ps \<longleftrightarrow>
     distinct (map source_url ps) \<and> distinct (map page_id ps)
     \<and> list_all (\<lambda>p. length (source_url p) \<le> 255) ps"

text \<open>\<open>q'\<close> is \<open>q\<close> but for its title and summary.\<close>

definition same_but_title_summary :: "NewsArticlePage \<Rightarrow> NewsArticlePage \<Rightarrow> bool" where
  "same_but_title_summary q q' \<longleftrightarrow>
     page_id q' = page_id q \<and> parent_id q' = parent_id q \<and> slug q' = slug q
     \<and> publication_date q' = publication_date q \<and> source_url q' = source_url q
     \<and> source_name q' = source_name q"

text \<open>
  Every row of \<open>ps\<close> is still there in \<open>ps'\<close>, at its place, the same but for its title
  and summary; \<open>ps'\<close> may have more rows after them.
\<close>

definition kept :: "NewsArticlePage list \<Rightarrow> NewsArticlePage list \<Rightarrow> bool" where
  "kept ps ps' \<longleftrightarrow>
     length ps \<le> length ps' \<and> list_all2 same_but_title_summary ps (take (length ps) ps')"

definition is_log :: "event \<Rightarrow> bool" where
  "is_log ev = (case ev of Log l m \<Rightarrow> True | _ \<Rightarrow> False)"

section \<open>Runs in which every exception is one the command catches\<close>

text \<open>
  Conditions on what the libraries answer at the calls one run makes, and at no other
  argument. In the first \<^verbatim>\<open>try\<close> block of a source's pass, whatever is raised is a request
  exception.
\<close>

definition fetch_contained :: "env \<Rightarrow> ScrapingSource \<Rightarrow> world \<Rightarrow> bool" where
  "fetch_contained env source w \<longleftrightarrow>
     (case requests_get env (trace w) (url_to_scrape source) of
        Inl e \<Rightarrow> catches RequestException e
      | Inr response \<Rightarrow>
          (case raise_for_status response of
             Inl e \<Rightarrow> True
           | Inr u \<Rightarrow>
               (case select_one env (content response) (html_selector source) of
                  Inl e \<Rightarrow> catches RequestException e
                | Inr r \<Rightarrow> True)))"

text \<open>
  In the second \<^verbatim>\<open>try\<close> block, whatever the model call, the reading of its text or the
  JSON parser raises is a subclass of \<^verbatim>\<open>Exception\<close>.
\<close>

definition model_contained :: "env \<Rightarrow> ScrapingSource \<Rightarrow> string \<Rightarrow> world \<Rightarrow> bool" where
  "model_contained env source html_snippet w \<longleftrightarrow>
     (case generate_content env (trace w) (prompt_text source html_snippet) of
        Inl e \<Rightarrow> catches OtherException e
      | Inr response \<Rightarrow>
          if parts response = [] then True
          else
            (case response_text response of
               Inl e \<Rightarrow> catches OtherException e
             | Inr t \<Rightarrow>
                 (case clean_json_response (PyStr t) of
                    None \<Rightarrow> True
                  | Some cleaned \<Rightarrow>
                      (case json_loads env cleaned of
                         Inl e \<Rightarrow> catches OtherException e
                       | Inr parsed \<Rightarrow> True))))"

text \<open>
  The store answers the upsert of one article without raising: the lookup finds no row
  or one, and the insertion, or the save of the row found, is accepted.
\<close>

definition write_accepted :: "env \<Rightarrow> Article \<Rightarrow> world \<Rightarrow> bool" where
  "write_accepted env a w \<longleftrightarrow>
     (let u = article_source_url a; tr = trace w @ [DbGet u] in
      case filter (\<lambda>q. source_url q = u) (pages w) of
        [] \<Rightarrow>
          (let np = new_article_page env tr a in
           constraint_error (pages w) np = None \<and> db_error env tr (pages w) np = None)
      | [p] \<Rightarrow>
          (let p' = p\<lparr>title := article_title a, summary := article_summary a\<rparr> in
           constraint_error (filter (\<lambda>q. page_id q \<noteq> page_id p') (pages w)) p' = None
           \<and> db_error env tr (pages w) p' = None)
      | p # q # qs \<Rightarrow> False)"

text \<open>The same for every article of a list, each at the world the loop reaches it in.\<close>

fun writes_accepted :: "env \<Rightarrow> NewsListPage \<Rightarrow> Article list \<Rightarrow> world \<Rightarrow> bool" where
  "writes_accepted env nlp [] w = True"
| "writes_accepted env nlp (a # rest) w =
     (write_accepted env a w
      \<and> writes_accepted env nlp rest (snd (upsert_article env nlp a w)))"

text \<open>One source's pass: the three stages, each at the world the pass reaches it in.\<close>

definition pass_contained :: "env \<Rightarrow> NewsListPage \<Rightarrow> ScrapingSource \<Rightarrow> world \<Rightarrow> bool" where
  "pass_contained env nlp source w \<longleftrightarrow>
     fetch_contained env source w
     \<and> (case fetch_snippet env source w of
          (Inl e, w1) \<Rightarrow> True
        | (Inr None, w1) \<Rightarrow> True
        | (Inr (Some html_snippet), w1) \<Rightarrow>
            model_contained env source html_snippet w1
            \<and> (case extract_articles env source html_snippet w1 of
                 (Inl e, w2) \<Rightarrow> True
               | (Inr None, w2) \<Rightarrow> True
               | (Inr (Some articles), w2) \<Rightarrow> writes_accepted env nlp articles w2))"

text \<open>Every source of a run, each at the world the loop of the command starts it in.\<close>

fun run_contained :: "env \<Rightarrow> NewsListPage \<Rightarrow> ScrapingSource list \<Rightarrow> world \<Rightarrow> bool" where
  "run_contained env nlp [] w = True"
| "run_contained env nlp (source # rest) w =
     (pass_contained env nlp source (logger_info (''Scraping source: '' @ name source) w)
      \<and> run_contained env nlp rest
           (snd (scrape_source env source nlp
                   (logger_info (''Scraping source: '' @ name source) w))))"

section \<open>A concrete run, for evaluating the model\<close>

text \<open>
  One source named Test, whose page has the selected element, and a model that answers
  with one article wrapped in prose. \<open>json_loads\<close> knows the one object text of the
  answer and rejects every other string, the empty one included, as \<^verbatim>\<open>json.loads\<close> does;
  \<open>HttpUrl\<close> accepts what starts with an http or https scheme and has more after it.
\<close>

definition scenario_source :: ScrapingSource where
  "scenario_source =
     \<lparr>name = ''Test'', url_to_scrape = ''http://x/list'', base_url = ''http://x'',
      html_selector = ''#main'', is_active = True\<rparr>"

definition scenario_object :: string where
  "scenario_object =
     ''{'' @ dq @ ''articles'' @ dq @ '':[{'' @ dq @ ''title'' @ dq @ '':'' @ dq @ ''T1'' @ dq
     @ '','' @ dq @ ''summary'' @ dq @ '':'' @ dq @ ''S1'' @ dq
     @ '','' @ dq @ ''source_url'' @ dq @ '':'' @ dq @ ''http://x/a'' @ dq @ ''}]}''"

definition scenario_json :: pyval where
  "scenario_json =
     PyDict [(''articles'',
       PyList [PyDict [(''title'', PyStr ''T1''), (''summary'', PyStr ''S1''),
                       (''source_url'', PyStr ''http://x/a'')]])]"

definition scenario_answer :: string where
  "scenario_answer = ''noise '' @ scenario_object @ '' trailing''"

definition http_scheme :: "string \<Rightarrow> string option" where
  "http_scheme u =
     (if (take 7 u = ''http://'' \<and> 7 < length u) \<or> (take 8 u = ''https://'' \<and> 8 < length u)
      then Some u else None)"

definition scenario_env :: env where
  "scenario_env =
     \<lparr>GOOGLE_API_KEY = Some ''secret'',
      scraping_sources = [scenario_source],
      live_list_pages = [\<lparr>list_page_id = 1\<rparr>],
      requests_get = (\<lambda>tr url.
         if url = ''http://x/list''
         then Inr \<lparr>status_code = 200, content = ''<html><div id=main>A</div></html>''\<rparr>
         else Inl (Exn RequestException ''connection refused'')),
      select_one = (\<lambda>body selector.
         if selector = ''#main'' then Inr (Some ''<div id=main>A</div>'') else Inr None),
      prettify = (\<lambda>element. element),
      generate_content = (\<lambda>tr prompt.
         Inr \<lparr>parts = [scenario_answer], response_text = Inr scenario_answer,
              prompt_feedback = []\<rparr>),
      json_loads = (\<lambda>s.
         if s = scenario_object then Inr scenario_json
         else Inl (Exn JSONDecodeError ''Expecting value'')),
      HttpUrl = http_scheme,
      today = (\<lambda>tr. 20000),
      py_hash = (\<lambda>s. int (length s)),
      db_error = (\<lambda>tr ps p. None)\<rparr>"

definition answering :: "string \<Rightarrow> env \<Rightarrow> env" where
  "answering text env =
     env\<lparr>generate_content := (\<lambda>tr prompt.
        Inr \<lparr>parts = [text], response_text = Inr text, prompt_feedback = []\<rparr>)\<rparr>"

definition empty_world :: world where
  "empty_world = \<lparr>pages = [], trace = []\<rparr>"

text \<open>
  An article whose URL is valid for the schema and longer than the 255 characters the
  table allows, the scenario's article, and a store that already holds it under an
  older title.
\<close>

definition long_url_article :: Article where
  "long_url_article =
     \<lparr>article_title = ''T1'', article_summary = ''S1'',
      article_source_url = ''http://x/'' @ replicate 250 (CHR ''a'')\<rparr>"

definition scenario_article :: Article where
  "scenario_article =
     \<lparr>article_title = ''T1'', article_summary = ''S1'', article_source_url = ''http://x/a''\<rparr>"

definition old_page :: NewsArticlePage where
  "old_page =
     \<lparr>page_id = 7, parent_id = 1, title = ''Old'', slug = ''old-slug'',
      publication_date = 19000, summary = ''Old summary'', source_url = ''http://x/a'',
      source_name = ''Test''\<rparr>"

definition old_world :: world where
  "old_world = \<lparr>pages = [old_page], trace = []\<rparr>"

text \<open>
  A run over three sources. The first site is down; the model answers the second with
  prose and no JSON object; the third gives one article. The model is told apart by the
  request that precedes its call.
\<close>

definition down_source :: ScrapingSource where
  "down_source =
     \<lparr>name = ''Down'', url_to_scrape = ''https://down.example.com/news'',
      base_url = ''https://down.example.com'', html_selector = ''#main'', is_active = True\<rparr>"

definition chatty_source :: ScrapingSource where
  "chatty_source =
     \<lparr>name = ''Chatty'', url_to_scrape = ''https://chatty.example.com/news'',
      base_url = ''https://chatty.example.com'', html_selector = ''#main'', is_active = True\<rparr>"

definition good_source :: ScrapingSource where
  "good_source =
     \<lparr>name = ''Good'', url_to_scrape = ''https://good.example.com/news'',
      base_url = ''https://good.example.com'', html_selector = ''#main'', is_active = True\<rparr>"

definition good_object :: string where
  "good_object =
     ''{'' @ dq @ ''articles'' @ dq @ '':[{'' @ dq @ ''title'' @ dq @ '':'' @ dq @ ''T1'' @ dq
     @ '','' @ dq @ ''summary'' @ dq @ '':'' @ dq @ ''S1'' @ dq
     @ '','' @ dq @ ''source_url'' @ dq @ '':'' @ dq @ ''https://good.example.com/a'' @ dq
     @ ''}]}''"

definition good_json :: pyval where
  "good_json =
     PyDict [(''articles'',
       PyList [PyDict [(''title'', PyStr ''T1''), (''summary'', PyStr ''S1''),
                       (''source_url'', PyStr ''https://good.example.com/a'')]])]"

definition newsroom_env :: env where
  "newsroom_env =
     \<lparr>GOOGLE_API_KEY = Some ''secret'',
      scraping_sources = [down_source, chatty_source, good_source],
      live_list_pages = [\<lparr>list_page_id = 1\<rparr>],
      requests_get = (\<lambda>tr url.
         if url = ''https://down.example.com/news''
         then Inl (Exn RequestException ''connection refused'')
         else Inr \<lparr>status_code = 200, content = ''<html><div id=main>A</div></html>''\<rparr>),
      select_one = (\<lambda>body selector.
         if selector = ''#main'' then Inr (Some ''<div id=main>A</div>'')
         else if selector = ''div['' then Inl (Exn OtherException ''Malformed attribute selector'')
         else Inr None),
      prettify = (\<lambda>element. element),
      generate_content = (\<lambda>tr prompt.
         if tr \<noteq> [] \<and> last tr = HttpGet ''https://chatty.example.com/news''
         then Inr \<lparr>parts = [''not json at all''], response_text = Inr ''not json at all'',
                  prompt_feedback = []\<rparr>
         else Inr \<lparr>parts = [''noise '' @ good_object @ '' trailing''],
                  response_text = Inr (''noise '' @ good_object @ '' trailing''),
                  prompt_feedback = []\<rparr>),
      json_loads = (\<lambda>s.
         if s = good_object then Inr good_json
         else Inl (Exn JSONDecodeError ''Expecting value'')),
      HttpUrl = http_scheme,
      today = (\<lambda>tr. 20000),
      py_hash = (\<lambda>s. int (length s)),
      db_error = (\<lambda>tr ps p. None)\<rparr>"

text \<open>
  A run whose first source gets three articles from the model. The URL of the second is
  valid for the schema and longer than the 255 characters the table allows
  (\<^verbatim>\<open>source_url = models.URLField(max_length=255, unique=True)\<close>). The second source is
  the one that is down.
\<close>

definition crowded_inner :: string where
  "crowded_inner =
     dq @ ''articles'' @ dq @ '':[{'' @ dq @ ''title'' @ dq @ '':'' @ dq @ ''T1'' @ dq
     @ '','' @ dq @ ''summary'' @ dq @ '':'' @ dq @ ''S1'' @ dq
     @ '','' @ dq @ ''source_url'' @ dq @ '':'' @ dq @ ''https://example.com/a'' @ dq
     @ ''},{'' @ dq @ ''title'' @ dq @ '':'' @ dq @ ''T2'' @ dq
     @ '','' @ dq @ ''summary'' @ dq @ '':'' @ dq @ ''S2'' @ dq
     @ '','' @ dq @ ''source_url'' @ dq @ '':'' @ dq
     @ ''https://example.com/'' @ replicate 250 (CHR ''a'') @ dq
     @ ''},{'' @ dq @ ''title'' @ dq @ '':'' @ dq @ ''T3'' @ dq
     @ '','' @ dq @ ''summary'' @ dq @ '':'' @ dq @ ''S3'' @ dq
     @ '','' @ dq @ ''source_url'' @ dq @ '':'' @ dq @ ''https://example.com/c'' @ dq
     @ ''}]''"

definition crowded_object :: string where
  "crowded_object = CHR ''{'' # crowded_inner @ ''}''"

definition crowded_json :: pyval where
  "crowded_json =
     PyDict [(''articles'',
       PyList [PyDict [(''title'', PyStr ''T1''), (''summary'', PyStr ''S1''),
                       (''source_url'', PyStr ''https://example.com/a'')],
               PyDict [(''title'', PyStr ''T2''), (''summary'', PyStr ''S2''),
                       (''source_url'',
                        PyStr (''https://example.com/'' @ replicate 250 (CHR ''a'')))],
               PyDict [(''title'', PyStr ''T3''), (''summary'', PyStr ''S3''),
                       (''source_url'', PyStr ''https://example.com/c'')]])]"

definition crowded_env :: env where
  "crowded_env =
     newsroom_env
       \<lparr>scraping_sources := [good_source, down_source],
        generate_content := (\<lambda>tr prompt.
           Inr \<lparr>parts = [crowded_object], response_text = Inr crowded_object,
                prompt_feedback = []\<rparr>),
        json_loads := (\<lambda>s.
           if s = crowded_object then Inr crowded_json
           else Inl (Exn JSONDecodeError ''Expecting value''))\<rparr>"

section \<open>Facts about searching and slicing\<close>

lemma str_find_ge: "- 1 \<le> str_find c xs"
  by (induction xs) (auto simp: Let_def)

lemma str_find_absent: "str_find c xs = - 1 \<longleftrightarrow> c \<notin> set xs"
proof (induction xs)
  case Nil
  show ?case by simp
next
  case (Cons x xs)
  have "- 1 \<le> str_find c xs" by (rule str_find_ge)
  with Cons show ?case by (auto simp: Let_def)
qed

lemma str_find_first:
  "c \<notin> set p \<Longrightarrow> str_find c (p @ c # r) = int (length p)"
proof (induction p)
  case Nil
  show ?case by simp
next
  case (Cons x p)
  then have "x \<noteq> c" and "str_find c (p @ c # r) = int (length p)" by auto
  then show ?case by (simp add: Let_def)
qed

lemma str_rfind_ge: "- 1 \<le> str_rfind c xs"
  by (induction xs) (auto simp: Let_def)

lemma str_rfind_absent: "str_rfind c xs = - 1 \<longleftrightarrow> c \<notin> set xs"
proof (induction xs)
  case Nil
  show ?case by simp
next
  case (Cons x xs)
  have "- 1 \<le> str_rfind c xs" by (rule str_rfind_ge)
  with Cons show ?case by (auto simp: Let_def)
qed

lemma str_rfind_last:
  "c \<notin> set s \<Longrightarrow> str_rfind c (p @ c # s) = int (length p)"
proof (induction p)
  case Nil
  then have "str_rfind c s = - 1" by (simp add: str_rfind_absent)
  then show ?case by simp
next
  case (Cons x p)
  then have "str_rfind c (p @ c # s) = int (length p)" by simp
  then show ?case by (simp add: Let_def)
qed

lemma py_slice_window:
  "py_slice (p @ m @ s) (int (length p)) (int (length p + length m)) = m"
  by (simp add: py_slice_def Let_def min_def)

lemma py_slice_empty:
  "0 \<le> a \<Longrightarrow> 0 \<le> b \<Longrightarrow> b \<le> a \<Longrightarrow> py_slice xs a b = []"
  by (simp add: py_slice_def Let_def min_def)

lemma clean_json_response_span:
  assumes "CHR ''{'' \<notin> set p" and "CHR ''}'' \<notin> set s"
  shows "clean_json_response (PyStr (p @ CHR ''{'' # m @ CHR ''}'' # s))
           = Some (CHR ''{'' # m @ [CHR ''}''])"
proof -
  let ?t = "p @ CHR ''{'' # m @ CHR ''}'' # s"
  have f: "str_find (CHR ''{'') ?t = int (length p)"
    using assms(1) by (rule str_find_first)
  have "str_rfind (CHR ''}'') ((p @ CHR ''{'' # m) @ CHR ''}'' # s)
          = int (length (p @ CHR ''{'' # m))"
    using assms(2) by (rule str_rfind_last)
  then have r: "str_rfind (CHR ''}'') ?t = int (length p) + int (length m) + 1"
    by simp
  have "py_slice (p @ (CHR ''{'' # m @ [CHR ''}'']) @ s) (int (length p))
          (int (length p + length (CHR ''{'' # m @ [CHR ''}''])))
        = CHR ''{'' # m @ [CHR ''}'']"
    by (rule py_slice_window)
  then have "py_slice ?t (int (length p)) (int (length p) + int (length m) + 1 + 1)
        = CHR ''{'' # m @ [CHR ''}'']"
    by (simp add: add.commute add.left_commute)
  with f r show ?thesis by (simp add: Let_def)
qed

lemma clean_json_response_none:
  "clean_json_response (PyStr t) = None \<longleftrightarrow> CHR ''{'' \<notin> set t \<or> CHR ''}'' \<notin> set t"
  by (simp add: Let_def str_find_absent str_rfind_absent)

lemma clean_json_response_reversed_span:
  assumes "CHR ''{'' \<notin> set a" "CHR ''{'' \<notin> set b" "CHR ''}'' \<notin> set b" "CHR ''}'' \<notin> set c"
  shows "clean_json_response (PyStr (a @ CHR ''}'' # b @ CHR ''{'' # c)) = Some []"
proof -
  let ?t = "a @ CHR ''}'' # b @ CHR ''{'' # c"
  have "CHR ''{'' \<notin> set (a @ CHR ''}'' # b)" using assms by simp
  then have "str_find (CHR ''{'') ((a @ CHR ''}'' # b) @ CHR ''{'' # c)
               = int (length (a @ CHR ''}'' # b))"
    by (rule str_find_first)
  then have f: "str_find (CHR ''{'') ?t = int (length a) + int (length b) + 1" by simp
  have "CHR ''}'' \<notin> set (b @ CHR ''{'' # c)" using assms by simp
  then have r: "str_rfind (CHR ''}'') (a @ CHR ''}'' # (b @ CHR ''{'' # c)) = int (length a)"
    by (rule str_rfind_last)
  have "py_slice ?t (int (length a) + int (length b) + 1) (int (length a) + 1) = []"
    by (rule py_slice_empty) simp_all
  with f r show ?thesis by (simp add: Let_def)
qed

lemma clean_json_response_non_string:
  "(\<forall>text. v \<noteq> PyStr text) \<Longrightarrow> clean_json_response v = None"
  by (cases v) simp_all

lemma extract_articles_parse_failure:
  assumes g: "generate_content env (trace w) (prompt_text source html) = Inr response"
    and p: "parts response \<noteq> []"
    and t: "response_text response = Inr text"
    and c: "clean_json_response (PyStr text) = Some cleaned"
    and j: "json_loads env cleaned = Inl e"
    and e: "catches OtherException e"
  shows "extract_articles env source html w =
           (Inr None,
            logger_error (''Gemini processing failed: '' @ exn_msg e)
              (emit (GenerateContent (prompt_text source html)) w))"
  using assms
  by (simp add: extract_articles_def Let_def gemini_failed_def del: clean_json_response.simps)

section \<open>Facts about validation\<close>

lemma validate_Article_ok_iff:
  "(\<exists>a. validate_Article env x = Inr a) \<longleftrightarrow>
     (\<exists>fields t s u. x = PyDict fields
        \<and> map_of fields ''title'' = Some (PyStr t)
        \<and> map_of fields ''summary'' = Some (PyStr s)
        \<and> map_of fields ''source_url'' = Some (PyStr u)
        \<and> HttpUrl env u \<noteq> None)"
  unfolding validate_Article_def
  by (auto split: pyval.splits option.splits)

lemma validate_Article_error:
  "validate_Article env x = Inl e \<Longrightarrow> e = schema_error"
  unfolding validate_Article_def
  by (auto split: pyval.splits option.splits)

lemma validate_items_ok_iff:
  "(\<exists>as. validate_items env xs = Inr as) \<longleftrightarrow> (\<forall>x \<in> set xs. \<exists>a. validate_Article env x = Inr a)"
  by (induction xs) (auto split: sum.splits)

lemma validate_items_error:
  "validate_items env xs = Inl e \<Longrightarrow> e = schema_error"
  by (induction xs) (auto split: sum.splits dest: validate_Article_error)

lemma validate_items_length:
  "validate_items env xs = Inr as \<Longrightarrow> length as = length xs"
  by (induction xs arbitrary: as) (auto split: sum.splits)

lemma validate_ArticleList_ok_iff:
  "(\<exists>as. validate_ArticleList env v = Inr as) \<longleftrightarrow>
     (\<exists>kv items. v = PyDict kv \<and> map_of kv ''articles'' = Some (PyList items)
        \<and> (\<forall>x \<in> set items. \<exists>a. validate_Article env x = Inr a))"
  unfolding validate_ArticleList_def
  by (auto simp: validate_items_ok_iff split: pyval.splits option.splits)

lemma validate_ArticleList_error:
  "validate_ArticleList env (PyDict kv) = Inl e \<Longrightarrow> e = schema_error"
  unfolding validate_ArticleList_def
  by (auto split: pyval.splits option.splits dest: validate_items_error)

section \<open>Facts about the page store\<close>

lemma pages_emit [simp]: "pages (emit e w) = pages w"
  by (simp add: emit_def)

lemma trace_emit [simp]: "trace (emit e w) = trace w @ [e]"
  by (simp add: emit_def)

lemma pages_logger_info [simp]: "pages (logger_info m w) = pages w"
  by (simp add: logger_info_def)

lemma pages_logger_error [simp]: "pages (logger_error m w) = pages w"
  by (simp add: logger_error_def)

lemma trace_logger_info [simp]: "trace (logger_info m w) = trace w @ [Log INFO m]"
  by (simp add: logger_info_def)

lemma trace_logger_error [simp]: "trace (logger_error m w) = trace w @ [Log ERROR m]"
  by (simp add: logger_error_def)

lemma fold_max_ge: "(a::nat) \<le> fold max xs a"
proof (induction xs arbitrary: a)
  case Nil
  show ?case by simp
next
  case (Cons x xs)
  have "max x a \<le> fold max xs (max x a)" by (rule Cons.IH)
  then show ?case by simp
qed

lemma fold_max_mem: "x \<in> set xs \<Longrightarrow> (x::nat) \<le> fold max xs a"
proof (induction xs arbitrary: a)
  case Nil
  then show ?case by simp
next
  case (Cons y ys)
  show ?case
  proof (cases "x = y")
    case True
    have "max y a \<le> fold max ys (max y a)" by (rule fold_max_ge)
    with True show ?thesis by simp
  next
    case False
    with Cons.prems have "x \<in> set ys" by simp
    then have "x \<le> fold max ys (max y a)" by (rule Cons.IH)
    then show ?thesis by simp
  qed
qed

lemma fresh_id_new: "fresh_id ps \<notin> set (map page_id ps)"
proof
  assume "fresh_id ps \<in> set (map page_id ps)"
  then have "fresh_id ps \<le> fold max (map page_id ps) 0" by (rule fold_max_mem)
  then show False by (simp add: fresh_id_def)
qed

lemma same_but_refl: "same_but_title_summary q q"
  by (simp add: same_but_title_summary_def)

lemma same_but_trans:
  "same_but_title_summary a b \<Longrightarrow> same_but_title_summary b c \<Longrightarrow> same_but_title_summary a c"
  by (simp add: same_but_title_summary_def)

lemma same_but_update:
  "same_but_title_summary q (q\<lparr>title := t, summary := s\<rparr>)"
  by (simp add: same_but_title_summary_def)

lemma all2_same_but_refl: "list_all2 same_but_title_summary ps ps"
  by (simp add: list_all2_refl same_but_refl)

lemma all2_same_but_fields:
  assumes "list_all2 same_but_title_summary ps ps'"
  shows "map source_url ps' = map source_url ps" and "map page_id ps' = map page_id ps"
  using assms by (induction rule: list_all2_induct) (simp_all add: same_but_title_summary_def)

lemma all2_same_but_store_ok:
  assumes "list_all2 same_but_title_summary ps ps'" and "store_ok ps"
  shows "store_ok ps'"
proof -
  have u: "map source_url ps' = map source_url ps" and i: "map page_id ps' = map page_id ps"
    using assms(1) by (rule all2_same_but_fields)+
  have "list_all (\<lambda>p. length (source_url p) \<le> 255) ps'
          = list_all (\<lambda>n. n \<le> 255) (map length (map source_url ps'))"
    by (simp add: list_all_iff)
  also have "\<dots> = list_all (\<lambda>p. length (source_url p) \<le> 255) ps"
    unfolding u by (simp add: list_all_iff)
  finally show ?thesis using assms(2) by (simp add: store_ok_def u i)
qed

lemma kept_refl: "kept ps ps"
  by (simp add: kept_def all2_same_but_refl)

lemma kept_append: "kept ps (ps @ xs)"
  by (simp add: kept_def all2_same_but_refl)

lemma kept_same_length:
  "list_all2 same_but_title_summary ps ps' \<Longrightarrow> kept ps ps'"
  by (simp add: kept_def list_all2_lengthD)

lemma kept_trans:
  assumes "kept a b" and "kept b c"
  shows "kept a c"
proof -
  from assms have l: "length a \<le> length b" "length b \<le> length c"
    and ab: "list_all2 same_but_title_summary a (take (length a) b)"
    and bc: "list_all2 same_but_title_summary b (take (length b) c)"
    by (simp_all add: kept_def)
  from bc have "list_all2 same_but_title_summary (take (length a) b)
                  (take (length a) (take (length b) c))"
    by (rule list_all2_takeI)
  with l have "list_all2 same_but_title_summary (take (length a) b) (take (length a) c)"
    by (simp add: min_def)
  with ab have "list_all2 same_but_title_summary a (take (length a) c)"
    by (rule list_all2_trans [rotated 1]) (rule same_but_trans)
  with l show ?thesis by (simp add: kept_def)
qed

lemma save_rows_same_but:
  assumes d: "distinct (map page_id ps)" and p: "p \<in> set ps"
    and s: "same_but_title_summary p p'"
  shows "list_all2 same_but_title_summary ps
           (map (\<lambda>q. if page_id q = page_id p' then p' else q) ps)"
proof -
  have "same_but_title_summary q (if page_id q = page_id p' then p' else q)"
    if q: "q \<in> set ps" for q
  proof (cases "page_id q = page_id p'")
    case True
    with s have "page_id q = page_id p" by (simp add: same_but_title_summary_def)
    with d p q have "q = p" by (meson distinct_map inj_on_def)
    with s True show ?thesis by simp
  next
    case False
    then show ?thesis by (simp add: same_but_refl)
  qed
  then show ?thesis by (simp add: list_all2_map2 list_all2_same)
qed

lemma filter_url_single:
  assumes "distinct (map source_url ps)" and "p \<in> set ps"
  shows "filter (\<lambda>q. source_url q = source_url p) ps = [p]"
  using assms
proof (induction ps)
  case Nil
  then show ?case by simp
next
  case (Cons x xs)
  show ?case
  proof (cases "x = p")
    case True
    with Cons.prems(1) have "source_url p \<notin> source_url ` set xs" by simp
    then have "\<forall>q \<in> set xs. source_url q \<noteq> source_url p" by (metis image_eqI)
    then have "filter (\<lambda>q. source_url q = source_url p) xs = []"
      by (simp add: filter_empty_conv)
    with True show ?thesis by simp
  next
    case False
    with Cons.prems have m: "p \<in> set xs" and "distinct (map source_url xs)"
      and "source_url x \<noteq> source_url p" by auto
    with Cons.IH show ?thesis by simp
  qed
qed

lemma filter_url_none:
  "u \<notin> set (map source_url ps) \<Longrightarrow> filter (\<lambda>q. source_url q = u) ps = []"
  by (auto simp: filter_empty_conv)

section \<open>Facts about one upsert\<close>

lemma objects_get_absent:
  "u \<notin> set (map source_url (pages w)) \<Longrightarrow>
   objects_get u w =
     (Inl (Exn DoesNotExist ''NewsArticlePage matching query does not exist.''), emit (DbGet u) w)"
  by (simp add: objects_get_def Let_def filter_url_none)

lemma objects_get_present:
  "filter (\<lambda>q. source_url q = u) (pages w) = [p] \<Longrightarrow>
   objects_get u w = (Inr p, emit (DbGet u) w)"
  by (simp add: objects_get_def Let_def)

lemma page_save_Inr:
  "page_save env p w = (Inr u, w') \<Longrightarrow>
   w' = (emit (DbSave p) w)
          \<lparr>pages := map (\<lambda>q. if page_id q = page_id p then p else q) (pages w)\<rparr>"
  by (auto simp: page_save_def Let_def split: option.splits)

lemma page_save_Inl:
  "page_save env p w = (Inl e, w') \<Longrightarrow> w' = emit (DbSave p) w"
  by (auto simp: page_save_def Let_def split: option.splits)

lemma add_child_Inr:
  "add_child env nlp np w = (Inr u, w') \<Longrightarrow>
   w' = (emit (DbAddChild (list_page_id nlp) np) w)
          \<lparr>pages := pages w @ [np\<lparr>page_id := fresh_id (pages w), parent_id := list_page_id nlp\<rparr>]\<rparr>
   \<and> constraint_error (pages w) np = None \<and> db_error env (trace w) (pages w) np = None"
  by (auto simp: add_child_def Let_def split: option.splits)

lemma add_child_Inl:
  "add_child env nlp np w = (Inl e, w') \<Longrightarrow>
   w' = emit (DbAddChild (list_page_id nlp) np) w
   \<and> (constraint_error (pages w) np = Some e
        \<or> constraint_error (pages w) np = None \<and> db_error env (trace w) (pages w) np = Some e)"
  by (auto simp: add_child_def Let_def split: option.splits)

lemma add_child_accepts:
  "constraint_error (pages w) np = None \<Longrightarrow> db_error env (trace w) (pages w) np = None \<Longrightarrow>
   add_child env nlp np w =
     (Inr (), (emit (DbAddChild (list_page_id nlp) np) w)
          \<lparr>pages := pages w @ [np\<lparr>page_id := fresh_id (pages w), parent_id := list_page_id nlp\<rparr>]\<rparr>)"
  by (simp add: add_child_def Let_def)

lemma add_child_url_taken:
  assumes "source_url np \<in> set (map source_url (pages w))"
  shows "\<exists>e. add_child env nlp np w = (Inl e, emit (DbAddChild (list_page_id nlp) np) w)"
  using assms by (auto simp: add_child_def constraint_error_def Let_def list_ex_iff)

lemma source_url_new_article_page [simp]:
  "source_url (new_article_page env tr a) = article_source_url a"
  by (simp add: new_article_page_def)

lemma title_new_article_page [simp]:
  "title (new_article_page env tr a) = article_title a"
  by (simp add: new_article_page_def)

lemma constraint_error_class:
  "constraint_error ps p = Some e \<Longrightarrow> \<not> catches DoesNotExist e"
  by (auto simp: constraint_error_def split: if_splits)

text \<open>The loop body when the URL is new: the lookup raises, and the handler inserts.\<close>

lemma upsert_article_absent:
  assumes "article_source_url a \<notin> set (map source_url (pages w))"
  shows "upsert_article env nlp a w =
     (case add_child env nlp
             (new_article_page env (trace w @ [DbGet (article_source_url a)]) a)
             (emit (DbGet (article_source_url a)) w) of
        (Inl e', w'') \<Rightarrow> (Inl e', w'')
      | (Inr u, w'') \<Rightarrow>
          (Inr (), logger_info (''Added: '' @ sq @ article_title a @ sq) w''))"
proof -
  obtain r w'' where ac: "add_child env nlp
             (new_article_page env (trace w @ [DbGet (article_source_url a)]) a)
             (emit (DbGet (article_source_url a)) w) = (r, w'')"
    by (cases "add_child env nlp
             (new_article_page env (trace w @ [DbGet (article_source_url a)]) a)
             (emit (DbGet (article_source_url a)) w)")
  show ?thesis
    by (cases r) (simp_all add: upsert_article_def objects_get_absent [OF assms] Let_def ac)
qed

text \<open>The loop body when one row has the URL.\<close>

lemma upsert_article_present:
  assumes f: "filter (\<lambda>q. source_url q = article_source_url a) (pages w) = [p]"
  shows "upsert_article env nlp a w =
     (case page_save env (p\<lparr>title := article_title a, summary := article_summary a\<rparr>)
             (emit (DbGet (article_source_url a)) w) of
        (Inl e, w2) \<Rightarrow>
          if catches DoesNotExist e
          then (case add_child env nlp (new_article_page env (trace w2) a) w2 of
                  (Inl e', w3) \<Rightarrow> (Inl e', w3)
                | (Inr u, w3) \<Rightarrow>
                    (Inr (), logger_info (''Added: '' @ sq @ article_title a @ sq) w3))
          else (Inl e, w2)
      | (Inr u, w2) \<Rightarrow>
          (Inr (), logger_info (''Updated: '' @ sq @ article_title a @ sq) w2))"
proof -
  let ?p' = "p\<lparr>title := article_title a, summary := article_summary a\<rparr>"
  obtain r w2 where ps: "page_save env ?p' (emit (DbGet (article_source_url a)) w) = (r, w2)"
    by (cases "page_save env ?p' (emit (DbGet (article_source_url a)) w)")
  show ?thesis
  proof (cases r)
    case (Inr u)
    then show ?thesis
      by (simp add: upsert_article_def objects_get_present [OF f] Let_def ps)
  next
    case (Inl e)
    obtain r' w3 where ac: "add_child env nlp (new_article_page env (trace w2) a) w2 = (r', w3)"
      by (cases "add_child env nlp (new_article_page env (trace w2) a) w2")
    from Inl show ?thesis
      by (cases r') (simp_all add: upsert_article_def objects_get_present [OF f] Let_def ps ac)
  qed
qed

lemma map_update_same_but:
  "list_all2 same_but_title_summary ps
     (map (\<lambda>q. if P q then q\<lparr>title := t, summary := s\<rparr> else q) ps)"
  by (simp add: list_all2_map2 list_all2_same same_but_refl same_but_update)

lemma is_log_simps [simp]:
  "is_log (Log l m)" "\<not> is_log (HttpGet x)" "\<not> is_log (GenerateContent x)"
  "\<not> is_log (DbGet x)" "\<not> is_log (DbSave p)" "\<not> is_log (DbAddChild i p)"
  by (simp_all add: is_log_def)

lemma save_by_key_is_by_url:
  assumes ok: "store_ok ps" and p: "p \<in> set ps"
  shows "map (\<lambda>q. if page_id q = page_id (p\<lparr>title := t, summary := s\<rparr>)
                   then p\<lparr>title := t, summary := s\<rparr> else q) ps =
         map (\<lambda>q. if source_url q = source_url p then q\<lparr>title := t, summary := s\<rparr> else q) ps"
proof (rule map_cong [OF refl])
  fix q assume q: "q \<in> set ps"
  from ok have du: "distinct (map source_url ps)" and di: "distinct (map page_id ps)"
    by (simp_all add: store_ok_def)
  show "(if page_id q = page_id (p\<lparr>title := t, summary := s\<rparr>)
         then p\<lparr>title := t, summary := s\<rparr> else q) =
        (if source_url q = source_url p then q\<lparr>title := t, summary := s\<rparr> else q)"
  proof (cases "q = p")
    case True
    then show ?thesis by simp
  next
    case False
    with di p q have "page_id q \<noteq> page_id p" by (meson distinct_map inj_on_def)
    moreover from False du p q have "source_url q \<noteq> source_url p"
      by (meson distinct_map inj_on_def)
    ultimately show ?thesis by simp
  qed
qed

text \<open>Every way one upsert can end, on a store that meets its constraints.\<close>

lemma upsert_article_outcomes:
  assumes ok: "store_ok (pages w)" and R: "upsert_article env nlp a w = (r, w')"
  shows "(article_source_url a \<notin> set (map source_url (pages w)) \<and> r = Inr ()
            \<and> length (article_source_url a) \<le> 255
            \<and> db_error env (trace w @ [DbGet (article_source_url a)]) (pages w)
                 (new_article_page env (trace w @ [DbGet (article_source_url a)]) a) = None
            \<and> pages w' = pages w @
                 [(new_article_page env (trace w @ [DbGet (article_source_url a)]) a)
                    \<lparr>page_id := fresh_id (pages w), parent_id := list_page_id nlp\<rparr>])
       \<or> (article_source_url a \<in> set (map source_url (pages w)) \<and> r = Inr ()
            \<and> pages w' =
                 map (\<lambda>q. if source_url q = article_source_url a
                           then q\<lparr>title := article_title a, summary := article_summary a\<rparr>
                           else q) (pages w))
       \<or> ((\<exists>e. r = Inl e) \<and> pages w' = pages w)"
proof (cases "article_source_url a \<in> set (map source_url (pages w))")
  case False
  let ?np = "new_article_page env (trace w @ [DbGet (article_source_url a)]) a"
  let ?w1 = "emit (DbGet (article_source_url a)) w"
  note eq = upsert_article_absent [OF False, of env nlp]
  obtain r1 w1 where ac: "add_child env nlp ?np ?w1 = (r1, w1)"
    by (cases "add_child env nlp ?np ?w1")
  show ?thesis
  proof (cases r1)
    case (Inl e)
    with ac have "w1 = emit (DbAddChild (list_page_id nlp) ?np) ?w1"
      using add_child_Inl [of env nlp ?np ?w1 e w1] by simp
    with R eq ac Inl show ?thesis by auto
  next
    case (Inr u)
    with ac have f: "w1 = (emit (DbAddChild (list_page_id nlp) ?np) ?w1)
          \<lparr>pages := pages ?w1 @ [?np\<lparr>page_id := fresh_id (pages ?w1), parent_id := list_page_id nlp\<rparr>]\<rparr>"
      and c: "constraint_error (pages ?w1) ?np = None"
      and d: "db_error env (trace ?w1) (pages ?w1) ?np = None"
      using add_child_Inr [of env nlp ?np ?w1 u w1] by simp_all
    from c have "length (article_source_url a) \<le> 255"
      by (simp add: constraint_error_def split: if_splits)
    with R eq ac Inr f d False show ?thesis by auto
  qed
next
  case True
  then obtain p where p: "p \<in> set (pages w)" and pu: "source_url p = article_source_url a"
    by auto
  from ok have du: "distinct (map source_url (pages w))" by (simp add: store_ok_def)
  from du p have "filter (\<lambda>q. source_url q = source_url p) (pages w) = [p]"
    by (rule filter_url_single)
  with pu have f: "filter (\<lambda>q. source_url q = article_source_url a) (pages w) = [p]" by simp
  note eq = upsert_article_present [OF f, of env nlp]
  let ?p' = "p\<lparr>title := article_title a, summary := article_summary a\<rparr>"
  let ?w1 = "emit (DbGet (article_source_url a)) w"
  obtain r1 w2 where ps: "page_save env ?p' ?w1 = (r1, w2)"
    by (cases "page_save env ?p' ?w1")
  show ?thesis
  proof (cases r1)
    case (Inr u)
    with ps have "w2 = (emit (DbSave ?p') ?w1)
          \<lparr>pages := map (\<lambda>q. if page_id q = page_id ?p' then ?p' else q) (pages ?w1)\<rparr>"
      using page_save_Inr [of env ?p' ?w1 u w2] by simp
    moreover have "map (\<lambda>q. if page_id q = page_id ?p' then ?p' else q) (pages w) =
        map (\<lambda>q. if source_url q = source_url p
                  then q\<lparr>title := article_title a, summary := article_summary a\<rparr> else q) (pages w)"
      using ok p by (rule save_by_key_is_by_url)
    ultimately have "pages w2 =
        map (\<lambda>q. if source_url q = article_source_url a
                  then q\<lparr>title := article_title a, summary := article_summary a\<rparr> else q) (pages w)"
      using pu by simp
    with R eq ps Inr True show ?thesis by auto
  next
    case (Inl e)
    with ps have w2: "w2 = emit (DbSave ?p') ?w1"
      using page_save_Inl [of env ?p' ?w1 e w2] by simp
    show ?thesis
    proof (cases "catches DoesNotExist e")
      case False
      with R eq ps Inl w2 show ?thesis by auto
    next
      case c: True
      have "source_url (new_article_page env (trace w2) a) \<in> set (map source_url (pages w2))"
        using True w2 by simp
      from add_child_url_taken [OF this, of env nlp]
      obtain e' where "add_child env nlp (new_article_page env (trace w2) a) w2 =
          (Inl e', emit (DbAddChild (list_page_id nlp) (new_article_page env (trace w2) a)) w2)"
        by blast
      with R eq ps Inl w2 c show ?thesis by auto
    qed
  qed
qed

lemma store_ok_append:
  assumes "store_ok ps" and "source_url p \<notin> set (map source_url ps)"
    and "length (source_url p) \<le> 255" and "page_id p \<notin> set (map page_id ps)"
  shows "store_ok (ps @ [p])"
  using assms by (simp add: store_ok_def)

lemma upsert_article_store_ok:
  assumes ok: "store_ok (pages w)" and R: "upsert_article env nlp a w = (r, w')"
  shows "store_ok (pages w')"
proof -
  let ?np = "(new_article_page env (trace w @ [DbGet (article_source_url a)]) a)
               \<lparr>page_id := fresh_id (pages w), parent_id := list_page_id nlp\<rparr>"
  from upsert_article_outcomes [OF ok R]
  consider (created) "article_source_url a \<notin> set (map source_url (pages w))"
      "length (article_source_url a) \<le> 255" "pages w' = pages w @ [?np]"
    | (updated) "pages w' =
         map (\<lambda>q. if source_url q = article_source_url a
                   then q\<lparr>title := article_title a, summary := article_summary a\<rparr>
                   else q) (pages w)"
    | (unchanged) "pages w' = pages w"
    by blast
  then show ?thesis
  proof cases
    case created
    have "store_ok (pages w @ [?np])"
    proof (rule store_ok_append [OF ok])
      show "source_url ?np \<notin> set (map source_url (pages w))" using created(1) by simp
      show "length (source_url ?np) \<le> 255" using created(2) by simp
      show "page_id ?np \<notin> set (map page_id (pages w))" using fresh_id_new [of "pages w"] by simp
    qed
    with created(3) show ?thesis by simp
  next
    case updated
    have "list_all2 same_but_title_summary (pages w) (pages w')"
      unfolding updated by (rule map_update_same_but)
    then show ?thesis using ok by (rule all2_same_but_store_ok)
  next
    case unchanged
    with ok show ?thesis by simp
  qed
qed

lemma upsert_article_kept:
  assumes ok: "store_ok (pages w)" and R: "upsert_article env nlp a w = (r, w')"
  shows "kept (pages w) (pages w')"
proof -
  from upsert_article_outcomes [OF ok R]
  consider (created) x where "pages w' = pages w @ [x]"
    | (updated) "pages w' =
         map (\<lambda>q. if source_url q = article_source_url a
                   then q\<lparr>title := article_title a, summary := article_summary a\<rparr>
                   else q) (pages w)"
    | (unchanged) "pages w' = pages w"
    by blast
  then show ?thesis
  proof cases
    case created
    then show ?thesis by (simp add: kept_append)
  next
    case updated
    have "list_all2 same_but_title_summary (pages w) (pages w')"
      unfolding updated by (rule map_update_same_but)
    then show ?thesis by (rule kept_same_length)
  next
    case unchanged
    then show ?thesis by (simp add: kept_refl)
  qed
qed

lemma upsert_article_other_rows:
  assumes ok: "store_ok (pages w)" and R: "upsert_article env nlp a w = (r, w')"
    and i: "i < length (pages w)" and o: "source_url (pages w ! i) \<noteq> article_source_url a"
  shows "pages w' ! i = pages w ! i"
proof -
  from upsert_article_outcomes [OF ok R]
  consider (created) x where "pages w' = pages w @ [x]"
    | (updated) "pages w' =
         map (\<lambda>q. if source_url q = article_source_url a
                   then q\<lparr>title := article_title a, summary := article_summary a\<rparr>
                   else q) (pages w)"
    | (unchanged) "pages w' = pages w"
    by blast
  then show ?thesis
  proof cases
    case created
    with i show ?thesis by (simp add: nth_append)
  next
    case updated
    with i o show ?thesis by simp
  next
    case unchanged
    then show ?thesis by simp
  qed
qed

text \<open>
  One upsert only adds events to the trace, and when it raises it has written no page
  and no log record; this needs nothing of the store.
\<close>

lemma upsert_article_trace:
  assumes R: "upsert_article env nlp a w = (r, w')"
  shows "\<exists>evs. trace w' = trace w @ evs
           \<and> (\<forall>e. r = Inl e \<longrightarrow> filter is_log evs = [] \<and> pages w' = pages w)"
proof (cases "filter (\<lambda>q. source_url q = article_source_url a) (pages w)")
  case Nil
  then have ab: "article_source_url a \<notin> set (map source_url (pages w))"
    by (auto simp: filter_empty_conv)
  let ?np = "new_article_page env (trace w @ [DbGet (article_source_url a)]) a"
  let ?w1 = "emit (DbGet (article_source_url a)) w"
  note eq = upsert_article_absent [OF ab, of env nlp]
  obtain r1 w1 where ac: "add_child env nlp ?np ?w1 = (r1, w1)"
    by (cases "add_child env nlp ?np ?w1")
  show ?thesis
  proof (cases r1)
    case (Inl e1)
    with ac have "w1 = emit (DbAddChild (list_page_id nlp) ?np) ?w1"
      using add_child_Inl [of env nlp ?np ?w1 e1 w1] by simp
    with R eq ac Inl show ?thesis by auto
  next
    case (Inr u)
    with ac have "trace w1 = trace ?w1 @ [DbAddChild (list_page_id nlp) ?np]"
      using add_child_Inr [of env nlp ?np ?w1 u w1] by simp
    with R eq ac Inr show ?thesis by auto
  qed
next
  case (Cons p rest)
  show ?thesis
  proof (cases rest)
    case (Cons p2 rest2)
    with \<open>filter (\<lambda>q. source_url q = article_source_url a) (pages w) = p # rest\<close>
    have "objects_get (article_source_url a) w =
        (Inl (Exn MultipleObjectsReturned ''get() returned more than one NewsArticlePage''),
         emit (DbGet (article_source_url a)) w)"
      by (simp add: objects_get_def Let_def)
    with R show ?thesis by (auto simp: upsert_article_def Let_def)
  next
    case Nil
    with Cons have f: "filter (\<lambda>q. source_url q = article_source_url a) (pages w) = [p]"
      by simp
    note eq = upsert_article_present [OF f, of env nlp]
    let ?p' = "p\<lparr>title := article_title a, summary := article_summary a\<rparr>"
    let ?w1 = "emit (DbGet (article_source_url a)) w"
    obtain r1 w2 where ps: "page_save env ?p' ?w1 = (r1, w2)"
      by (cases "page_save env ?p' ?w1")
    show ?thesis
    proof (cases r1)
      case (Inr u)
      with ps have "trace w2 = trace ?w1 @ [DbSave ?p']"
        using page_save_Inr [of env ?p' ?w1 u w2] by simp
      with R eq ps Inr show ?thesis by auto
    next
      case (Inl e1)
      with ps have w2: "w2 = emit (DbSave ?p') ?w1"
        using page_save_Inl [of env ?p' ?w1 e1 w2] by simp
      show ?thesis
      proof (cases "catches DoesNotExist e1")
        case False
        with R eq ps Inl w2 show ?thesis by auto
      next
        case c: True
        obtain r3 w3 where ac: "add_child env nlp (new_article_page env (trace w2) a) w2 = (r3, w3)"
          by (cases "add_child env nlp (new_article_page env (trace w2) a) w2")
        show ?thesis
        proof (cases r3)
          case i3: (Inr u)
          with ac have "trace w3 =
              trace w2 @ [DbAddChild (list_page_id nlp) (new_article_page env (trace w2) a)]"
            using add_child_Inr [of env nlp "new_article_page env (trace w2) a" w2 u w3] by simp
          with R eq ps Inl c ac i3 w2 show ?thesis by auto
        next
          case i3: (Inl e3)
          with ac have "w3 = emit (DbAddChild (list_page_id nlp) (new_article_page env (trace w2) a)) w2"
            using add_child_Inl [of env nlp "new_article_page env (trace w2) a" w2 e3 w3] by simp
          with R eq ps Inl c ac i3 w2 show ?thesis by auto
        qed
      qed
    qed
  qed
qed

section \<open>Facts about the loops\<close>

lemma upsert_all_append:
  "upsert_all env nlp (xs @ ys) w =
     (case upsert_all env nlp xs w of
        (Inl e, w') \<Rightarrow> (Inl e, w')
      | (Inr u, w') \<Rightarrow> upsert_all env nlp ys w')"
proof (induction xs arbitrary: w)
  case Nil
  show ?case by simp
next
  case (Cons x xs)
  obtain r w1 where u: "upsert_article env nlp x w = (r, w1)"
    by (cases "upsert_article env nlp x w")
  show ?case by (cases r) (simp_all add: u Cons.IH)
qed

lemma upsert_all_store:
  assumes "store_ok (pages w)" and "upsert_all env nlp as w = (r, w')"
  shows "store_ok (pages w') \<and> kept (pages w) (pages w')"
  using assms
proof (induction as arbitrary: w)
  case Nil
  then show ?case by (simp add: kept_refl)
next
  case (Cons x xs)
  obtain r1 w1 where u: "upsert_article env nlp x w = (r1, w1)"
    by (cases "upsert_article env nlp x w")
  from Cons.prems(1) u have ok1: "store_ok (pages w1)" by (rule upsert_article_store_ok)
  from Cons.prems(1) u have k1: "kept (pages w) (pages w1)" by (rule upsert_article_kept)
  show ?case
  proof (cases r1)
    case (Inl e)
    with Cons.prems(2) u have "w' = w1" by simp
    with ok1 k1 show ?thesis by simp
  next
    case (Inr v)
    with Cons.prems(2) u have "upsert_all env nlp xs w1 = (r, w')" by simp
    with ok1 have "store_ok (pages w') \<and> kept (pages w1) (pages w')" by (rule Cons.IH)
    with k1 show ?thesis by (blast intro: kept_trans)
  qed
qed

lemma upsert_all_trace:
  assumes "upsert_all env nlp as w = (r, w')"
  shows "\<exists>evs. trace w' = trace w @ evs"
  using assms
proof (induction as arbitrary: w)
  case Nil
  then show ?case by simp
next
  case (Cons x xs)
  obtain r1 w1 where u: "upsert_article env nlp x w = (r1, w1)"
    by (cases "upsert_article env nlp x w")
  from upsert_article_trace [OF u] obtain evs1 where t1: "trace w1 = trace w @ evs1" by blast
  show ?case
  proof (cases r1)
    case (Inl e)
    with Cons.prems u have "w' = w1" by simp
    with t1 show ?thesis by simp
  next
    case (Inr v)
    with Cons.prems u have "upsert_all env nlp xs w1 = (r, w')" by simp
    then obtain evs where "trace w' = trace w1 @ evs" using Cons.IH by blast
    with t1 show ?thesis by simp
  qed
qed

lemma fetch_snippet_effect:
  assumes "fetch_snippet env source w = (r, w')"
  shows "pages w' = pages w \<and> (\<exists>evs. trace w' = trace w @ evs)"
  using assms
  by (auto simp: fetch_snippet_def Let_def split: sum.splits option.splits if_splits)

lemma gemini_failed_effect:
  assumes "gemini_failed e w = (r, w')"
  shows "pages w' = pages w \<and> (\<exists>evs. trace w' = trace w @ evs)"
  using assms by (auto simp: gemini_failed_def split: if_splits)

lemma extract_articles_effect:
  assumes "extract_articles env source html w = (r, w')"
  shows "pages w' = pages w \<and> (\<exists>evs. trace w' = trace w @ evs)"
  using assms
  by (auto simp: extract_articles_def Let_def gemini_failed_def
      split: sum.splits option.splits if_splits simp del: clean_json_response.simps)

lemma scrape_source_store:
  assumes ok: "store_ok (pages w)" and R: "scrape_source env source nlp w = (r, w')"
  shows "store_ok (pages w') \<and> kept (pages w) (pages w')"
proof -
  obtain r1 w1 where f: "fetch_snippet env source w = (r1, w1)"
    by (cases "fetch_snippet env source w")
  then have p1: "pages w1 = pages w" by (simp add: fetch_snippet_effect)
  show ?thesis
  proof (cases r1)
    case (Inl e)
    with R f p1 ok show ?thesis by (simp add: scrape_source_def kept_refl)
  next
    case (Inr h)
    show ?thesis
    proof (cases h)
      case None
      with R f p1 ok Inr show ?thesis by (auto simp: scrape_source_def kept_refl)
    next
      case (Some html)
      obtain r2 w2 where x: "extract_articles env source html w1 = (r2, w2)"
        by (cases "extract_articles env source html w1")
      then have p2: "pages w2 = pages w" using p1 by (simp add: extract_articles_effect)
      show ?thesis
      proof (cases r2)
        case (Inl e)
        with R f x p2 ok Inr Some show ?thesis by (simp add: scrape_source_def kept_refl)
      next
        case i2: (Inr arts)
        show ?thesis
        proof (cases arts)
          case None
          with R f x p2 ok Inr Some i2 show ?thesis by (auto simp: scrape_source_def kept_refl)
        next
          case s2: (Some articles)
          with R f x Inr Some i2 have "upsert_all env nlp articles w2 = (r, w')"
            by (simp add: scrape_source_def)
          moreover from ok p2 have "store_ok (pages w2)" by simp
          ultimately have "store_ok (pages w') \<and> kept (pages w2) (pages w')"
            by (rule upsert_all_store [rotated])
          with p2 show ?thesis by simp
        qed
      qed
    qed
  qed
qed

lemma scrape_source_trace:
  assumes R: "scrape_source env source nlp w = (r, w')"
  shows "\<exists>evs. trace w' = trace w @ evs"
proof -
  obtain r1 w1 where f: "fetch_snippet env source w = (r1, w1)"
    by (cases "fetch_snippet env source w")
  then obtain evs1 where t1: "trace w1 = trace w @ evs1"
    using fetch_snippet_effect by blast
  show ?thesis
  proof (cases r1)
    case (Inl e)
    with R f t1 show ?thesis by (simp add: scrape_source_def)
  next
    case (Inr h)
    show ?thesis
    proof (cases h)
      case None
      with R f t1 Inr show ?thesis by (auto simp: scrape_source_def)
    next
      case (Some html)
      obtain r2 w2 where x: "extract_articles env source html w1 = (r2, w2)"
        by (cases "extract_articles env source html w1")
      then obtain evs2 where "trace w2 = trace w1 @ evs2"
        using extract_articles_effect by blast
      with t1 have t2: "trace w2 = trace w @ (evs1 @ evs2)" by simp
      show ?thesis
      proof (cases r2)
        case (Inl e)
        with R f x t2 Inr Some show ?thesis by (simp add: scrape_source_def)
      next
        case i2: (Inr arts)
        show ?thesis
        proof (cases arts)
          case None
          with R f x t2 Inr Some i2 show ?thesis by (auto simp: scrape_source_def)
        next
          case s2: (Some articles)
          with R f x Inr Some i2 have "upsert_all env nlp articles w2 = (r, w')"
            by (simp add: scrape_source_def)
          then obtain evs3 where "trace w' = trace w2 @ evs3"
            using upsert_all_trace by blast
          with t2 show ?thesis by simp
        qed
      qed
    qed
  qed
qed

lemma scrape_all_store:
  assumes "store_ok (pages w)" and "scrape_all env nlp sources w = (r, w')"
  shows "store_ok (pages w') \<and> kept (pages w) (pages w')"
  using assms
proof (induction sources arbitrary: w)
  case Nil
  then show ?case by (simp add: kept_refl)
next
  case (Cons s ss)
  let ?w0 = "logger_info (''Scraping source: '' @ name s) w"
  obtain r1 w1 where u: "scrape_source env s nlp ?w0 = (r1, w1)"
    by (cases "scrape_source env s nlp ?w0")
  from Cons.prems(1) have "store_ok (pages ?w0)" by simp
  from scrape_source_store [OF this u]
  have ok1: "store_ok (pages w1)" and k1: "kept (pages w) (pages w1)" by simp_all
  show ?case
  proof (cases r1)
    case (Inl e)
    with Cons.prems(2) u have "w' = w1" by simp
    with ok1 k1 show ?thesis by simp
  next
    case (Inr v)
    with Cons.prems(2) u have "scrape_all env nlp ss w1 = (r, w')" by simp
    with ok1 have "store_ok (pages w') \<and> kept (pages w1) (pages w')" by (rule Cons.IH)
    with k1 show ?thesis by (blast intro: kept_trans)
  qed
qed

lemma handle_store:
  assumes ok: "store_ok (pages w)" and R: "handle env source_option w = (r, w')"
  shows "store_ok (pages w') \<and> kept (pages w) (pages w')"
proof (cases "configure env")
  case (Inl e)
  with R ok show ?thesis by (auto simp: handle_def kept_refl split: if_splits)
next
  case (Inr u)
  show ?thesis
  proof (cases "resolve_sources env source_option")
    case (Inl n)
    with R ok Inr show ?thesis by (auto simp: handle_def kept_refl)
  next
    case rs: (Inr sources)
    show ?thesis
    proof (cases "first_live env")
      case None
      with R ok Inr rs show ?thesis by (auto simp: handle_def kept_refl)
    next
      case (Some nlp)
      obtain r1 w1 where sa: "scrape_all env nlp sources w = (r1, w1)"
        by (cases "scrape_all env nlp sources w")
      from scrape_all_store [OF ok sa]
      have "store_ok (pages w1)" and "kept (pages w) (pages w1)" by simp_all
      moreover from R Inr rs Some sa have "pages w' = pages w1"
        by (cases r1) (auto simp: handle_def)
      ultimately show ?thesis by simp
    qed
  qed
qed

lemma constraint_error_none:
  "length (source_url p) \<le> 255 \<Longrightarrow> source_url p \<notin> set (map source_url others) \<Longrightarrow>
   constraint_error others p = None"
proof -
  assume len: "length (source_url p) \<le> 255"
    and new: "source_url p \<notin> set (map source_url others)"
  have "\<not> list_ex (\<lambda>q. source_url q = source_url p) others"
  proof
    assume "list_ex (\<lambda>q. source_url q = source_url p) others"
    then obtain q where "q \<in> set others" and "source_url q = source_url p"
      unfolding list_ex_iff by blast
    then have "source_url p \<in> source_url ` set others" by (metis image_eqI)
    with new show False by simp
  qed
  with len show ?thesis by (simp add: constraint_error_def)
qed

lemma page_save_accepts:
  "constraint_error (filter (\<lambda>q. page_id q \<noteq> page_id p) (pages w)) p = None \<Longrightarrow>
   db_error env (trace w) (pages w) p = None \<Longrightarrow>
   page_save env p w =
     (Inr (), (emit (DbSave p) w)
        \<lparr>pages := map (\<lambda>q. if page_id q = page_id p then p else q) (pages w)\<rparr>)"
  by (simp add: page_save_def Let_def)

lemma upsert_article_absent_accepts:
  assumes ab: "article_source_url a \<notin> set (map source_url (pages w))"
    and len: "length (article_source_url a) \<le> 255"
    and db: "db_error env (trace w @ [DbGet (article_source_url a)]) (pages w)
               (new_article_page env (trace w @ [DbGet (article_source_url a)]) a) = None"
  shows "fst (upsert_article env nlp a w) = Inr ()"
proof -
  let ?np = "new_article_page env (trace w @ [DbGet (article_source_url a)]) a"
  let ?w1 = "emit (DbGet (article_source_url a)) w"
  have "constraint_error (pages ?w1) ?np = None"
    using ab len by (simp add: constraint_error_none)
  moreover have "db_error env (trace ?w1) (pages ?w1) ?np = None" using db by simp
  ultimately have "add_child env nlp ?np ?w1 =
     (Inr (), (emit (DbAddChild (list_page_id nlp) ?np) ?w1)
        \<lparr>pages := pages ?w1 @ [?np\<lparr>page_id := fresh_id (pages ?w1), parent_id := list_page_id nlp\<rparr>]\<rparr>)"
    by (rule add_child_accepts)
  then show ?thesis by (simp add: upsert_article_absent [OF ab])
qed

lemma upsert_article_succeeds:
  assumes ok: "store_ok (pages w)" and len: "length (article_source_url a) \<le> 255"
    and db: "\<forall>tr ps p. db_error env tr ps p = None"
  shows "fst (upsert_article env nlp a w) = Inr ()"
proof (cases "article_source_url a \<in> set (map source_url (pages w))")
  case False
  then show ?thesis using len db by (simp add: upsert_article_absent_accepts)
next
  case True
  then obtain p where p: "p \<in> set (pages w)" and pu: "source_url p = article_source_url a"
    by auto
  from ok have du: "distinct (map source_url (pages w))" by (simp add: store_ok_def)
  from du p have "filter (\<lambda>q. source_url q = source_url p) (pages w) = [p]"
    by (rule filter_url_single)
  with pu have f: "filter (\<lambda>q. source_url q = article_source_url a) (pages w) = [p]" by simp
  let ?p' = "p\<lparr>title := article_title a, summary := article_summary a\<rparr>"
  let ?w1 = "emit (DbGet (article_source_url a)) w"
  have "source_url q \<noteq> source_url p" if "q \<in> set (pages w)" "page_id q \<noteq> page_id p" for q
  proof
    assume "source_url q = source_url p"
    with du p that(1) have "q = p" by (meson distinct_map inj_on_def)
    with that(2) show False by simp
  qed
  note other = this
  have "source_url ?p' \<notin> set (map source_url (filter (\<lambda>q. page_id q \<noteq> page_id ?p') (pages ?w1)))"
  proof
    assume "source_url ?p' \<in> set (map source_url (filter (\<lambda>q. page_id q \<noteq> page_id ?p') (pages ?w1)))"
    then obtain q where "q \<in> set (pages w)" and "page_id q \<noteq> page_id p"
      and "source_url q = source_url p"
      by (auto simp: image_iff)
    with other show False by blast
  qed
  moreover have "length (source_url ?p') \<le> 255" using len pu by simp
  ultimately have "constraint_error (filter (\<lambda>q. page_id q \<noteq> page_id ?p') (pages ?w1)) ?p' = None"
    by (rule constraint_error_none [rotated])
  moreover have "db_error env (trace ?w1) (pages ?w1) ?p' = None" using db by simp
  ultimately have "page_save env ?p' ?w1 =
     (Inr (), (emit (DbSave ?p') ?w1)
        \<lparr>pages := map (\<lambda>q. if page_id q = page_id ?p' then ?p' else q) (pages ?w1)\<rparr>)"
    by (rule page_save_accepts)
  then show ?thesis by (simp add: upsert_article_present [OF f])
qed

lemma kept_nth:
  "kept ps ps' \<longleftrightarrow>
     length ps \<le> length ps' \<and> (\<forall>i < length ps. same_but_title_summary (ps ! i) (ps' ! i))"
  by (auto simp: kept_def list_all2_conv_all_nth)

lemma upsert_article_insert_refused:
  assumes ab: "article_source_url a \<notin> set (map source_url (pages w))"
    and len: "length (article_source_url a) \<le> 255"
    and db: "db_error env (trace w @ [DbGet (article_source_url a)]) (pages w)
               (new_article_page env (trace w @ [DbGet (article_source_url a)]) a) = Some e"
  shows "upsert_article env nlp a w =
     (Inl e,
      emit (DbAddChild (list_page_id nlp)
              (new_article_page env (trace w @ [DbGet (article_source_url a)]) a))
        (emit (DbGet (article_source_url a)) w))"
proof -
  let ?np = "new_article_page env (trace w @ [DbGet (article_source_url a)]) a"
  let ?w1 = "emit (DbGet (article_source_url a)) w"
  have "constraint_error (pages ?w1) ?np = None"
    using ab len by (simp add: constraint_error_none)
  then have "add_child env nlp ?np ?w1 = (Inl e, emit (DbAddChild (list_page_id nlp) ?np) ?w1)"
    using db by (simp add: add_child_def Let_def)
  then show ?thesis by (simp add: upsert_article_absent [OF ab])
qed

lemma upsert_article_save_refused:
  assumes ok: "store_ok (pages w)" and p: "p \<in> set (pages w)"
    and pu: "source_url p = article_source_url a"
    and db: "db_error env (trace w @ [DbGet (article_source_url a)]) (pages w)
               (p\<lparr>title := article_title a, summary := article_summary a\<rparr>) = Some e"
    and e: "\<not> catches DoesNotExist e"
  shows "upsert_article env nlp a w =
     (Inl e,
      emit (DbSave (p\<lparr>title := article_title a, summary := article_summary a\<rparr>))
        (emit (DbGet (article_source_url a)) w))"
proof -
  from ok have du: "distinct (map source_url (pages w))"
    and len: "list_all (\<lambda>p. length (source_url p) \<le> 255) (pages w)"
    by (simp_all add: store_ok_def)
  from du p have "filter (\<lambda>q. source_url q = source_url p) (pages w) = [p]"
    by (rule filter_url_single)
  with pu have f: "filter (\<lambda>q. source_url q = article_source_url a) (pages w) = [p]" by simp
  let ?p' = "p\<lparr>title := article_title a, summary := article_summary a\<rparr>"
  let ?w1 = "emit (DbGet (article_source_url a)) w"
  have other: "source_url q \<noteq> source_url p"
    if "q \<in> set (pages w)" "page_id q \<noteq> page_id p" for q
  proof
    assume "source_url q = source_url p"
    with du p that(1) have "q = p" by (meson distinct_map inj_on_def)
    with that(2) show False by simp
  qed
  have "source_url ?p' \<notin> set (map source_url (filter (\<lambda>q. page_id q \<noteq> page_id ?p') (pages ?w1)))"
  proof
    assume "source_url ?p' \<in> set (map source_url (filter (\<lambda>q. page_id q \<noteq> page_id ?p') (pages ?w1)))"
    then obtain q where "q \<in> set (pages w)" and "page_id q \<noteq> page_id p"
      and "source_url q = source_url p"
      by (auto simp: image_iff)
    with other show False by blast
  qed
  moreover from len p have "length (source_url ?p') \<le> 255" by (simp add: list_all_iff)
  ultimately have "constraint_error (filter (\<lambda>q. page_id q \<noteq> page_id ?p') (pages ?w1)) ?p' = None"
    by (rule constraint_error_none [rotated])
  then have "page_save env ?p' ?w1 = (Inl e, emit (DbSave ?p') ?w1)"
    using db by (simp add: page_save_def Let_def)
  then show ?thesis using e by (simp add: upsert_article_present [OF f])
qed

section \<open>Facts about runs in which every exception is caught\<close>

lemma validate_Article_url:
  "validate_Article env x = Inr a \<Longrightarrow> \<exists>u. HttpUrl env u = Some (article_source_url a)"
  unfolding validate_Article_def
  by (auto split: pyval.splits option.splits)

lemma catches_schema_error: "catches OtherException schema_error"
  by (simp add: schema_error_def)

lemma str_rfind_snoc: "str_rfind c (xs @ [c]) = int (length xs)"
  by (induction xs) (simp_all add: Let_def)

lemma clean_json_response_bare_object:
  "clean_json_response (PyStr (CHR ''{'' # xs @ ''}'')) = Some (CHR ''{'' # xs @ ''}'')"
proof -
  have "str_rfind (CHR ''}'') (CHR ''{'' # xs @ ''}'') = int (length xs) + 1"
    using str_rfind_snoc [of "CHR ''}''" xs] by (simp add: Let_def)
  then show ?thesis by (simp add: py_slice_def Let_def)
qed

lemma clean_json_response_crowded:
  "clean_json_response (PyStr crowded_object) = Some crowded_object"
  unfolding crowded_object_def by (rule clean_json_response_bare_object)

lemma single_is_not_long: "[c] \<noteq> replicate 250 d"
proof
  assume "[c] = replicate 250 d"
  then have "length [c] = length (replicate 250 d)" by (rule arg_cong)
  then show False by simp
qed

lemma fetch_contained_returns:
  assumes "fetch_contained env source w"
  shows "\<exists>h w'. fetch_snippet env source w = (Inr h, w')"
proof (cases "requests_get env (trace w) (url_to_scrape source)")
  case (Inl e)
  with assms have "catches RequestException e" by (simp add: fetch_contained_def)
  with Inl show ?thesis by (simp add: fetch_snippet_def Let_def)
next
  case (Inr response)
  note g = this
  show ?thesis
  proof (cases "raise_for_status response")
    case (Inl e)
    then have "catches RequestException e"
      by (auto simp: raise_for_status_def split: if_splits)
    with Inl g show ?thesis by (simp add: fetch_snippet_def Let_def)
  next
    case st: (Inr u)
    show ?thesis
    proof (cases "select_one env (content response) (html_selector source)")
      case (Inl e)
      with assms g st have "catches RequestException e" by (simp add: fetch_contained_def)
      with Inl g st show ?thesis by (simp add: fetch_snippet_def Let_def)
    next
      case (Inr r)
      with g st show ?thesis by (cases r) (simp_all add: fetch_snippet_def Let_def)
    qed
  qed
qed

lemma model_contained_returns:
  assumes m: "model_contained env source html w"
  shows "\<exists>x w'. extract_articles env source html w = (Inr x, w')"
proof -
  let ?w1 = "emit (GenerateContent (prompt_text source html)) w"
  have failed: "\<exists>x w'. extract_articles env source html w = (Inr x, w')"
    if "extract_articles env source html w = gemini_failed e ?w1" and "catches OtherException e"
    for e
    using that by (simp add: gemini_failed_def)
  show ?thesis
  proof (cases "generate_content env (trace w) (prompt_text source html)")
    case (Inl e)
    with m have "catches OtherException e" by (simp add: model_contained_def)
    moreover from Inl have "extract_articles env source html w = gemini_failed e ?w1"
      by (simp add: extract_articles_def Let_def)
    ultimately show ?thesis by (rule failed [rotated])
  next
    case (Inr response)
    note g = this
    show ?thesis
    proof (cases "parts response = []")
      case True
      with g show ?thesis by (simp add: extract_articles_def Let_def)
    next
      case False
      note np = this
      show ?thesis
      proof (cases "response_text response")
        case (Inl e)
        with m g np have "catches OtherException e" by (simp add: model_contained_def)
        moreover from Inl g np have "extract_articles env source html w = gemini_failed e ?w1"
          by (simp add: extract_articles_def Let_def)
        ultimately show ?thesis by (rule failed [rotated])
      next
        case (Inr t0)
        note t = this
        show ?thesis
        proof (cases "clean_json_response (PyStr t0)")
          case None
          with g np t show ?thesis
            by (simp add: extract_articles_def Let_def del: clean_json_response.simps)
        next
          case (Some cleaned)
          note c = this
          show ?thesis
          proof (cases "json_loads env cleaned")
            case (Inl e)
            with m g np t c have "catches OtherException e"
              by (simp add: model_contained_def del: clean_json_response.simps)
            moreover from Inl g np t c
            have "extract_articles env source html w = gemini_failed e ?w1"
              by (simp add: extract_articles_def Let_def del: clean_json_response.simps)
            ultimately show ?thesis by (rule failed [rotated])
          next
            case (Inr parsed)
            note j = this
            show ?thesis
            proof (cases "validate_ArticleList env parsed")
              case (Inl e)
              have "catches OtherException e"
              proof (cases parsed)
                case (PyDict kv)
                with Inl have "e = schema_error" using validate_ArticleList_error by blast
                then show ?thesis by (simp add: catches_schema_error)
              qed (use Inl in \<open>auto simp: validate_ArticleList_def\<close>)
              moreover from Inl g np t c j
              have "extract_articles env source html w = gemini_failed e ?w1"
                by (simp add: extract_articles_def Let_def del: clean_json_response.simps)
              ultimately show ?thesis by (rule failed [rotated])
            next
              case (Inr as)
              with g np t c j show ?thesis
                by (simp add: extract_articles_def Let_def del: clean_json_response.simps)
            qed
          qed
        qed
      qed
    qed
  qed
qed

lemma write_accepted_returns:
  assumes a: "write_accepted env a w"
  shows "fst (upsert_article env nlp a w) = Inr ()"
proof (cases "filter (\<lambda>q. source_url q = article_source_url a) (pages w)")
  case Nil
  then have ab: "article_source_url a \<notin> set (map source_url (pages w))"
    by (auto simp: filter_empty_conv)
  let ?np = "new_article_page env (trace w @ [DbGet (article_source_url a)]) a"
  let ?w1 = "emit (DbGet (article_source_url a)) w"
  from a Nil have "constraint_error (pages ?w1) ?np = None"
    and "db_error env (trace ?w1) (pages ?w1) ?np = None"
    by (simp_all add: write_accepted_def Let_def)
  then have "add_child env nlp ?np ?w1 =
     (Inr (), (emit (DbAddChild (list_page_id nlp) ?np) ?w1)
        \<lparr>pages := pages ?w1 @ [?np\<lparr>page_id := fresh_id (pages ?w1), parent_id := list_page_id nlp\<rparr>]\<rparr>)"
    by (rule add_child_accepts)
  then show ?thesis by (simp add: upsert_article_absent [OF ab])
next
  case (Cons p rest)
  show ?thesis
  proof (cases rest)
    case (Cons p2 rest2)
    with a \<open>filter (\<lambda>q. source_url q = article_source_url a) (pages w) = p # rest\<close>
    show ?thesis by (simp add: write_accepted_def Let_def)
  next
    case Nil
    with Cons have f: "filter (\<lambda>q. source_url q = article_source_url a) (pages w) = [p]"
      by simp
    let ?p' = "p\<lparr>title := article_title a, summary := article_summary a\<rparr>"
    let ?w1 = "emit (DbGet (article_source_url a)) w"
    from a f have "constraint_error (filter (\<lambda>q. page_id q \<noteq> page_id ?p') (pages ?w1)) ?p' = None"
      and "db_error env (trace ?w1) (pages ?w1) ?p' = None"
      by (simp_all add: write_accepted_def Let_def)
    then have "page_save env ?p' ?w1 =
       (Inr (), (emit (DbSave ?p') ?w1)
          \<lparr>pages := map (\<lambda>q. if page_id q = page_id ?p' then ?p' else q) (pages ?w1)\<rparr>)"
      by (rule page_save_accepts)
    then show ?thesis by (simp add: upsert_article_present [OF f])
  qed
qed

lemma writes_accepted_returns:
  assumes "writes_accepted env nlp as w"
  shows "fst (upsert_all env nlp as w) = Inr ()"
  using assms
proof (induction as arbitrary: w)
  case Nil
  show ?case by simp
next
  case (Cons a as)
  obtain r w1 where u: "upsert_article env nlp a w = (r, w1)"
    by (cases "upsert_article env nlp a w")
  from Cons.prems have "write_accepted env a w" by simp
  then have "fst (upsert_article env nlp a w) = Inr ()" by (rule write_accepted_returns)
  with u have r: "r = Inr ()" by simp
  from Cons.prems u have "writes_accepted env nlp as w1" by simp
  then have "fst (upsert_all env nlp as w1) = Inr ()" by (rule Cons.IH)
  with u r show ?case by simp
qed

lemma pass_contained_returns:
  assumes c: "pass_contained env nlp source w"
  shows "fst (scrape_source env source nlp w) = Inr ()"
proof -
  from c have "fetch_contained env source w" by (simp add: pass_contained_def)
  from fetch_contained_returns [OF this]
  obtain h w1 where f: "fetch_snippet env source w = (Inr h, w1)" by blast
  show ?thesis
  proof (cases h)
    case None
    with f show ?thesis by (simp add: scrape_source_def)
  next
    case (Some html)
    with c f have m: "model_contained env source html w1"
      by (simp add: pass_contained_def)
    from model_contained_returns [OF m]
    obtain x w2 where e: "extract_articles env source html w1 = (Inr x, w2)" by blast
    show ?thesis
    proof (cases x)
      case None
      with f Some e show ?thesis by (simp add: scrape_source_def)
    next
      case as: (Some articles)
      with c f Some e have "writes_accepted env nlp articles w2"
        by (simp add: pass_contained_def)
      then have "fst (upsert_all env nlp articles w2) = Inr ()"
        by (rule writes_accepted_returns)
      with f Some e as show ?thesis by (simp add: scrape_source_def)
    qed
  qed
qed

lemma run_contained_returns:
  assumes "run_contained env nlp sources w"
  shows "\<exists>w' evs. scrape_all env nlp sources w = (Inr (), w') \<and> trace w' = trace w @ evs
           \<and> (\<forall>s \<in> set sources. Log INFO (''Scraping source: '' @ name s) \<in> set evs)"
  using assms
proof (induction sources arbitrary: w)
  case Nil
  show ?case by simp
next
  case (Cons s ss)
  let ?w0 = "logger_info (''Scraping source: '' @ name s) w"
  from Cons.prems have pc: "pass_contained env nlp s ?w0"
    and rc: "run_contained env nlp ss (snd (scrape_source env s nlp ?w0))"
    by simp_all
  from pass_contained_returns [OF pc]
  obtain w1 where r: "scrape_source env s nlp ?w0 = (Inr (), w1)"
    by (cases "scrape_source env s nlp ?w0") auto
  from scrape_source_trace [OF r] obtain evs1 where t1: "trace w1 = trace ?w0 @ evs1" by blast
  from rc r have "run_contained env nlp ss w1" by simp
  from Cons.IH [OF this] obtain w' evs where a: "scrape_all env nlp ss w1 = (Inr (), w')"
    and t: "trace w' = trace w1 @ evs"
    and l: "\<forall>s \<in> set ss. Log INFO (''Scraping source: '' @ name s) \<in> set evs"
    by blast
  from r a have "scrape_all env nlp (s # ss) w = (Inr (), w')" by simp
  moreover from t t1 have "trace w' = trace w @ (Log INFO (''Scraping source: '' @ name s) # evs1 @ evs)"
    by simp
  moreover from l have "\<forall>s' \<in> set (s # ss). Log INFO (''Scraping source: '' @ name s')
      \<in> set (Log INFO (''Scraping source: '' @ name s) # evs1 @ evs)"
    by auto
  ultimately show ?case by blast
qed

lemma scrape_all_append:
  "scrape_all env nlp (xs @ ys) w =
     (case scrape_all env nlp xs w of
        (Inl e, w') \<Rightarrow> (Inl e, w')
      | (Inr u, w') \<Rightarrow> scrape_all env nlp ys w')"
proof (induction xs arbitrary: w)
  case Nil
  show ?case by simp
next
  case (Cons x xs)
  obtain r w1 where u: "scrape_source env x nlp (logger_info (''Scraping source: '' @ name x) w) = (r, w1)"
    by (cases "scrape_source env x nlp (logger_info (''Scraping source: '' @ name x) w)")
  show ?case using u by (cases r) (simp_all add: Cons.IH)
qed

text \<open>
  An exception out of the upsert of one article, at any place of its list, in a source
  at any place of the resolved sources, is the result of the whole command.
\<close>

lemma upsert_error_leaves_handle:
  assumes c: "configure env = Inr ()"
    and rs: "resolve_sources env source_option = Inr (earlier @ source # later)"
    and nlp: "first_live env = Some nlp"
    and e0: "scrape_all env nlp earlier w = (Inr (), w0)"
    and f: "fetch_snippet env source (logger_info (''Scraping source: '' @ name source) w0)
              = (Inr (Some html), w1)"
    and x: "extract_articles env source html w1 = (Inr (Some (before @ a # rest)), w2)"
    and b: "upsert_all env nlp before w2 = (Inr (), w3)"
    and u: "upsert_article env nlp a w3 = (Inl e, w4)"
  shows "handle env source_option w = (Inl e, w4)"
proof -
  from b u have "upsert_all env nlp (before @ a # rest) w2 = (Inl e, w4)"
    by (simp add: upsert_all_append)
  with f x have "scrape_source env source nlp
      (logger_info (''Scraping source: '' @ name source) w0) = (Inl e, w4)"
    by (simp add: scrape_source_def)
  with e0 have "scrape_all env nlp (earlier @ source # later) w = (Inl e, w4)"
    by (simp add: scrape_all_append)
  with c rs nlp show ?thesis by (simp add: handle_def)
qed

section \<open>Unfolding the model on the concrete run\<close>

lemmas stage_defs =
  scrape_source_def fetch_snippet_def raise_for_status_def extract_articles_def
  gemini_failed_def validate_ArticleList_def validate_Article_def upsert_article_def
  objects_get_def page_save_def add_child_def constraint_error_def new_article_page_def
  logger_error_def logger_info_def emit_def py_slice_def Let_def

lemmas scenario_defs =
  scenario_env_def scenario_source_def scenario_object_def scenario_json_def
  scenario_answer_def http_scheme_def empty_world_def scenario_article_def
  long_url_article_def old_world_def old_page_def

lemmas newsroom_defs =
  newsroom_env_def down_source_def chatty_source_def good_source_def good_object_def
  good_json_def http_scheme_def empty_world_def

lemmas contained_defs =
  pass_contained_def fetch_contained_def model_contained_def write_accepted_def

lemmas run_defs =
  handle_def configure_def resolve_sources_def first_live_def

section \<open>The claims\<close>

text \<open>
  C5. For every raw model text, the extraction returns \<^verbatim>\<open>None\<close> (no JSON found) exactly
  when the text has no opening brace or no closing brace; when the first opening brace
  comes before the last closing brace, it returns the text from that first brace to that
  last brace, both included, whatever stands between them; so a response that is one JSON
  object text with prose around it, the prose free of braces, is cut down to the object
  text, and the parser's answer for the object text is the answer the pipeline gets.
\<close>

theorem clean_json_response_first_to_last:
  "(clean_json_response (PyStr t) = None \<longleftrightarrow> CHR ''{'' \<notin> set t \<or> CHR ''}'' \<notin> set t)
   \<and> (CHR ''{'' \<notin> set p \<and> CHR ''}'' \<notin> set s \<longrightarrow>
        clean_json_response (PyStr (p @ CHR ''{'' # m @ CHR ''}'' # s))
          = Some (CHR ''{'' # m @ [CHR ''}'']))
   \<and> (CHR ''{'' \<notin> set p \<and> CHR ''}'' \<notin> set s
        \<and> json_loads env (CHR ''{'' # m @ [CHR ''}'']) = Inr v \<longrightarrow>
        map_option (json_loads env)
          (clean_json_response (PyStr (p @ CHR ''{'' # m @ CHR ''}'' # s))) = Some (Inr v))"
proof (intro conjI impI)
  show "clean_json_response (PyStr t) = None \<longleftrightarrow> CHR ''{'' \<notin> set t \<or> CHR ''}'' \<notin> set t"
    by (rule clean_json_response_none)
next
  assume "CHR ''{'' \<notin> set p \<and> CHR ''}'' \<notin> set s"
  then show "clean_json_response (PyStr (p @ CHR ''{'' # m @ CHR ''}'' # s))
          = Some (CHR ''{'' # m @ [CHR ''}''])"
    using clean_json_response_span [of p s m] by blast
next
  assume h: "CHR ''{'' \<notin> set p \<and> CHR ''}'' \<notin> set s
        \<and> json_loads env (CHR ''{'' # m @ [CHR ''}'']) = Inr v"
  then have "clean_json_response (PyStr (p @ CHR ''{'' # m @ CHR ''}'' # s))
          = Some (CHR ''{'' # m @ [CHR ''}''])"
    using clean_json_response_span [of p s m] by blast
  with h show "map_option (json_loads env)
          (clean_json_response (PyStr (p @ CHR ''{'' # m @ CHR ''}'' # s))) = Some (Inr v)"
    by simp
qed

theorem clean_json_response_first_to_last_witness:
  "CHR ''{'' \<notin> set ''noise '' \<and> CHR ''}'' \<notin> set '' trailing''
   \<and> json_loads scenario_env scenario_object = Inr scenario_json
   \<and> clean_json_response (PyStr ''not json at all'') = None
   \<and> clean_json_response (PyStr scenario_answer) = Some scenario_object
   \<and> map_option (json_loads scenario_env) (clean_json_response (PyStr scenario_answer))
       = Some (Inr scenario_json)"
  using clean_json_response_first_to_last
    [of "''not json at all''" "''noise ''" "'' trailing''" "butlast (tl scenario_object)"
        scenario_env scenario_json]
  by (simp add: scenario_answer_def scenario_object_def scenario_env_def)

text \<open>
  C9. For every raw model text whose last closing brace stands strictly before its first
  opening brace, the extraction returns the empty string, not \<^verbatim>\<open>None\<close>; the pipeline
  then hands that string to the JSON parser, and when the parser raises on it (as
  \<^verbatim>\<open>json.loads\<close> does on the empty string) the source's pass ends with the log line of a
  failed processing, not with the one of a missing JSON object. For every input that is
  not a string the extraction returns \<^verbatim>\<open>None\<close>.
\<close>

theorem clean_json_response_reversed_braces:
  "(CHR ''{'' \<notin> set a \<and> CHR ''{'' \<notin> set b \<and> CHR ''}'' \<notin> set b \<and> CHR ''}'' \<notin> set c \<longrightarrow>
      clean_json_response (PyStr (a @ CHR ''}'' # b @ CHR ''{'' # c)) = Some [])
   \<and> (CHR ''{'' \<notin> set a \<and> CHR ''{'' \<notin> set b \<and> CHR ''}'' \<notin> set b \<and> CHR ''}'' \<notin> set c
        \<and> generate_content env (trace w) (prompt_text source html) = Inr response
        \<and> parts response \<noteq> []
        \<and> response_text response = Inr (a @ CHR ''}'' # b @ CHR ''{'' # c)
        \<and> json_loads env [] = Inl e \<and> catches OtherException e \<longrightarrow>
      extract_articles env source html w =
        (Inr None,
         logger_error (''Gemini processing failed: '' @ exn_msg e)
           (emit (GenerateContent (prompt_text source html)) w)))
   \<and> ((\<forall>text. v \<noteq> PyStr text) \<longrightarrow> clean_json_response v = None)"
proof (intro conjI impI)
  assume "CHR ''{'' \<notin> set a \<and> CHR ''{'' \<notin> set b \<and> CHR ''}'' \<notin> set b \<and> CHR ''}'' \<notin> set c"
  then show "clean_json_response (PyStr (a @ CHR ''}'' # b @ CHR ''{'' # c)) = Some []"
    using clean_json_response_reversed_span [of a b c] by blast
next
  assume h: "CHR ''{'' \<notin> set a \<and> CHR ''{'' \<notin> set b \<and> CHR ''}'' \<notin> set b \<and> CHR ''}'' \<notin> set c
        \<and> generate_content env (trace w) (prompt_text source html) = Inr response
        \<and> parts response \<noteq> []
        \<and> response_text response = Inr (a @ CHR ''}'' # b @ CHR ''{'' # c)
        \<and> json_loads env [] = Inl e \<and> catches OtherException e"
  then have c: "clean_json_response (PyStr (a @ CHR ''}'' # b @ CHR ''{'' # c)) = Some []"
    using clean_json_response_reversed_span [of a b c] by blast
  from h have g: "generate_content env (trace w) (prompt_text source html) = Inr response"
    and p: "parts response \<noteq> []"
    and t: "response_text response = Inr (a @ CHR ''}'' # b @ CHR ''{'' # c)"
    and j: "json_loads env [] = Inl e" and e: "catches OtherException e"
    by blast+
  show "extract_articles env source html w =
        (Inr None,
         logger_error (''Gemini processing failed: '' @ exn_msg e)
           (emit (GenerateContent (prompt_text source html)) w))"
    by (rule extract_articles_parse_failure [OF g p t c j e])
next
  assume "\<forall>text. v \<noteq> PyStr text"
  then show "clean_json_response v = None"
    by (rule clean_json_response_non_string)
qed

theorem clean_json_response_reversed_braces_witness:
  "CHR ''{'' \<notin> set ''a'' \<and> CHR ''{'' \<notin> set '' '' \<and> CHR ''}'' \<notin> set '' ''
   \<and> CHR ''}'' \<notin> set ''b''
   \<and> json_loads (answering ''a} {b'' scenario_env) [] = Inl (Exn JSONDecodeError ''Expecting value'')
   \<and> catches OtherException (Exn JSONDecodeError ''Expecting value'')
   \<and> (\<forall>text. PyInt 7 \<noteq> PyStr text)
   \<and> clean_json_response (PyStr ''a} {b'') = Some []
   \<and> extract_articles (answering ''a} {b'' scenario_env) scenario_source ''A'' empty_world =
        (Inr None,
         logger_error ''Gemini processing failed: Expecting value''
           (emit (GenerateContent (prompt_text scenario_source ''A'')) empty_world))
   \<and> clean_json_response (PyInt 7) = None"
  using clean_json_response_reversed_braces
    [of "''a''" "'' ''" "''b''" "answering ''a} {b'' scenario_env" empty_world scenario_source
        "''A''" "\<lparr>parts = [''a} {b''], response_text = Inr ''a} {b'', prompt_feedback = []\<rparr>"
        "Exn JSONDecodeError ''Expecting value''" "PyInt 7"]
  by (simp add: answering_def scenario_env_def scenario_object_def)

text \<open>
  C6. For every run whose API-key variable is unset or empty, whatever the option and the
  sources, the command returns with the world as it was but for one log record, the
  configuration error: no HTTP request, no call of the model, no call into the page
  store, and the pages unchanged.
\<close>

theorem handle_without_api_key:
  "GOOGLE_API_KEY env = None \<or> GOOGLE_API_KEY env = Some [] \<Longrightarrow>
   handle env source_option w =
     (Inr (), w\<lparr>trace := trace w @ [Log ERROR ''Config failed: GOOGLE_API_KEY not found.'']\<rparr>)"
  by (auto simp: handle_def configure_def logger_error_def emit_def)

theorem handle_without_api_key_witness:
  "GOOGLE_API_KEY (scenario_env\<lparr>GOOGLE_API_KEY := None\<rparr>) = None
   \<and> handle (scenario_env\<lparr>GOOGLE_API_KEY := None\<rparr>) None empty_world =
       (Inr (), \<lparr>pages = [], trace = [Log ERROR ''Config failed: GOOGLE_API_KEY not found.'']\<rparr>)
   \<and> GOOGLE_API_KEY (scenario_env\<lparr>GOOGLE_API_KEY := Some []\<rparr>) = Some []
   \<and> handle (scenario_env\<lparr>GOOGLE_API_KEY := Some []\<rparr>) (Some ''Test'') empty_world =
       (Inr (), \<lparr>pages = [], trace = [Log ERROR ''Config failed: GOOGLE_API_KEY not found.'']\<rparr>)"
  using handle_without_api_key [of "scenario_env\<lparr>GOOGLE_API_KEY := None\<rparr>" None empty_world]
    handle_without_api_key [of "scenario_env\<lparr>GOOGLE_API_KEY := Some []\<rparr>" "Some ''Test''" empty_world]
  by (simp add: empty_world_def)

text \<open>
  C7. For every source whose page is fetched with a success status and has no element
  matching the selector, the source's pass returns after the request and one error
  record naming the selector: the model is not called, nothing is parsed or validated,
  and no page is looked up, created or updated.
\<close>

theorem scrape_source_selector_miss:
  "requests_get env (trace w) (url_to_scrape source) = Inr response \<Longrightarrow>
   \<not> (400 \<le> status_code response \<and> status_code response < 600) \<Longrightarrow>
   select_one env (content response) (html_selector source) = Inr None \<Longrightarrow>
   scrape_source env source news_list_page w =
     (Inr (),
      w\<lparr>trace := trace w @
         [HttpGet (url_to_scrape source),
          Log ERROR (''Could not find selector '' @ sq @ html_selector source @ sq @ '' on page.'')]\<rparr>)"
  by (auto simp: scrape_source_def fetch_snippet_def raise_for_status_def Let_def
      logger_error_def emit_def)

theorem scrape_source_selector_miss_witness:
  "requests_get scenario_env (trace empty_world)
       (url_to_scrape (scenario_source\<lparr>html_selector := ''#absent''\<rparr>))
     = Inr \<lparr>status_code = 200, content = ''<html><div id=main>A</div></html>''\<rparr>
   \<and> \<not> (400 \<le> (200::nat) \<and> (200::nat) < 600)
   \<and> select_one scenario_env ''<html><div id=main>A</div></html>'' ''#absent'' = Inr None
   \<and> scrape_source scenario_env (scenario_source\<lparr>html_selector := ''#absent''\<rparr>)
         \<lparr>list_page_id = 1\<rparr> empty_world =
       (Inr (),
        \<lparr>pages = [],
         trace = [HttpGet ''http://x/list'',
                  Log ERROR (''Could not find selector '' @ sq @ ''#absent'' @ sq @ '' on page.'')]\<rparr>)"
  using scrape_source_selector_miss
    [of scenario_env empty_world "scenario_source\<lparr>html_selector := ''#absent''\<rparr>"
        "\<lparr>status_code = 200, content = ''<html><div id=main>A</div></html>''\<rparr>"
        "\<lparr>list_page_id = 1\<rparr>"]
  by (simp add: scenario_env_def scenario_source_def empty_world_def)

text \<open>Facts for C10.\<close>

lemma iexact_nth:
  "iexact a b \<longleftrightarrow>
     length a = length b \<and> (\<forall>i < length a. lower_char (a ! i) = lower_char (b ! i))"
  by (auto simp: iexact_def list_eq_iff_nth_eq)

lemma lower_char_code:
  "(of_char (lower_char c) :: nat) =
     (if 65 \<le> (of_char c :: nat) \<and> (of_char c :: nat) \<le> 90 then of_char c + 32 else of_char c)"
  by (cases c) (auto simp: lower_char_def Let_def)

lemma lower_char_eq_iff:
  "lower_char c = lower_char d \<longleftrightarrow>
     c = d
     \<or> (65 \<le> (of_char c :: nat) \<and> (of_char c :: nat) \<le> 90 \<and> (of_char d :: nat) = of_char c + 32)
     \<or> (65 \<le> (of_char d :: nat) \<and> (of_char d :: nat) \<le> 90 \<and> (of_char c :: nat) = of_char d + 32)"
proof -
  have "lower_char c = lower_char d \<longleftrightarrow>
      (of_char (lower_char c) :: nat) = of_char (lower_char d)"
    by simp
  also have "\<dots> \<longleftrightarrow>
      (if 65 \<le> (of_char c :: nat) \<and> (of_char c :: nat) \<le> 90 then of_char c + 32 else of_char c)
      = (if 65 \<le> (of_char d :: nat) \<and> (of_char d :: nat) \<le> 90 then of_char d + 32 else (of_char d :: nat))"
    by (simp only: lower_char_code)
  also have "\<dots> \<longleftrightarrow>
     (of_char c :: nat) = of_char d
     \<or> (65 \<le> (of_char c :: nat) \<and> (of_char c :: nat) \<le> 90 \<and> (of_char d :: nat) = of_char c + 32)
     \<or> (65 \<le> (of_char d :: nat) \<and> (of_char d :: nat) \<le> 90 \<and> (of_char c :: nat) = of_char d + 32)"
    by auto
  finally show ?thesis by simp
qed

lemma resolve_sources_named:
  "n \<noteq> [] \<Longrightarrow> resolve_sources env (Some n) =
     (if filter (\<lambda>s. iexact (name s) n \<and> is_active s) (scraping_sources env) = [] then Inl n
      else Inr (filter (\<lambda>s. iexact (name s) n \<and> is_active s) (scraping_sources env)))"
  by (simp add: resolve_sources_def Let_def)

text \<open>
  C10. For every run with the API key set and a source name given: two names match when
  they have the same length and agree letter by letter after folding to lower case,
  where folding adds 32 to the code of a letter \<open>A\<close> to \<open>Z\<close> (giving \<open>a\<close> to \<open>z\<close>) and
  leaves every other character as it is, so that two characters fold to the same one
  exactly when they are equal or one is an upper-case letter and the other its
  lower-case form; the sources selected are exactly the active sources of the registry
  whose name matches the given one; when no active source matches, the command logs one
  error naming the source and returns, nothing else done; when some do and a live list
  page exists, the command runs the loop over exactly the matching active sources, in
  registry order.
\<close>

theorem handle_named_source:
  assumes k: "GOOGLE_API_KEY env = Some api_key" "api_key \<noteq> []" and n: "n \<noteq> []"
  shows
    "(\<forall>a b. iexact a b \<longleftrightarrow>
        length a = length b \<and> (\<forall>i < length a. lower_char (a ! i) = lower_char (b ! i)))
     \<and> (\<forall>s. (\<exists>sources. resolve_sources env (Some n) = Inr sources \<and> s \<in> set sources) \<longleftrightarrow>
          s \<in> set (scraping_sources env) \<and> is_active s \<and> iexact (name s) n)
     \<and> ((\<forall>s \<in> set (scraping_sources env). \<not> (is_active s \<and> iexact (name s) n)) \<longrightarrow>
          handle env (Some n) w =
            (Inr (), w\<lparr>trace := trace w @
               [Log ERROR (''No active source named '' @ sq @ n @ sq @ '' found.'')]\<rparr>))
     \<and> ((\<exists>s \<in> set (scraping_sources env). is_active s \<and> iexact (name s) n) \<longrightarrow>
          first_live env = Some news_list_page \<longrightarrow>
          handle env (Some n) w =
            (case scrape_all env news_list_page
                    (filter (\<lambda>s. iexact (name s) n \<and> is_active s) (scraping_sources env)) w of
               (Inl e, w') \<Rightarrow> (Inl e, w')
             | (Inr u, w') \<Rightarrow> (Inr (), logger_info ''All scraping tasks complete.'' w')))
     \<and> (\<forall>c. (of_char (lower_char c) :: nat) =
            (if 65 \<le> (of_char c :: nat) \<and> (of_char c :: nat) \<le> 90
             then of_char c + 32 else of_char c))
     \<and> (\<forall>c d. lower_char c = lower_char d \<longleftrightarrow>
            c = d
            \<or> (65 \<le> (of_char c :: nat) \<and> (of_char c :: nat) \<le> 90
                 \<and> (of_char d :: nat) = of_char c + 32)
            \<or> (65 \<le> (of_char d :: nat) \<and> (of_char d :: nat) \<le> 90
                 \<and> (of_char c :: nat) = of_char d + 32))"
proof (intro conjI allI impI)
  fix a b
  show "iexact a b \<longleftrightarrow>
        length a = length b \<and> (\<forall>i < length a. lower_char (a ! i) = lower_char (b ! i))"
    by (rule iexact_nth)
next
  fix s
  show "(\<exists>sources. resolve_sources env (Some n) = Inr sources \<and> s \<in> set sources) \<longleftrightarrow>
          s \<in> set (scraping_sources env) \<and> is_active s \<and> iexact (name s) n"
    using n by (auto simp: resolve_sources_named filter_empty_conv)
next
  assume "\<forall>s \<in> set (scraping_sources env). \<not> (is_active s \<and> iexact (name s) n)"
  then have "filter (\<lambda>s. iexact (name s) n \<and> is_active s) (scraping_sources env) = []"
    by (auto simp: filter_empty_conv)
  then have "resolve_sources env (Some n) = Inl n"
    using n by (simp add: resolve_sources_named)
  then show "handle env (Some n) w =
            (Inr (), w\<lparr>trace := trace w @
               [Log ERROR (''No active source named '' @ sq @ n @ sq @ '' found.'')]\<rparr>)"
    using k by (simp add: handle_def configure_def logger_error_def emit_def)
next
  assume "\<exists>s \<in> set (scraping_sources env). is_active s \<and> iexact (name s) n"
    and l: "first_live env = Some news_list_page"
  then have "filter (\<lambda>s. iexact (name s) n \<and> is_active s) (scraping_sources env) \<noteq> []"
    by (auto simp: filter_empty_conv)
  then have "resolve_sources env (Some n) =
      Inr (filter (\<lambda>s. iexact (name s) n \<and> is_active s) (scraping_sources env))"
    using n by (simp add: resolve_sources_named)
  then show "handle env (Some n) w =
            (case scrape_all env news_list_page
                    (filter (\<lambda>s. iexact (name s) n \<and> is_active s) (scraping_sources env)) w of
               (Inl e, w') \<Rightarrow> (Inl e, w')
             | (Inr u, w') \<Rightarrow> (Inr (), logger_info ''All scraping tasks complete.'' w'))"
    using k l by (simp add: handle_def configure_def)
next
  fix c
  show "(of_char (lower_char c) :: nat) =
            (if 65 \<le> (of_char c :: nat) \<and> (of_char c :: nat) \<le> 90
             then of_char c + 32 else of_char c)"
    by (rule lower_char_code)
next
  fix c d
  show "lower_char c = lower_char d \<longleftrightarrow>
            c = d
            \<or> (65 \<le> (of_char c :: nat) \<and> (of_char c :: nat) \<le> 90
                 \<and> (of_char d :: nat) = of_char c + 32)
            \<or> (65 \<le> (of_char d :: nat) \<and> (of_char d :: nat) \<le> 90
                 \<and> (of_char c :: nat) = of_char d + 32)"
    by (rule lower_char_eq_iff)
qed

theorem handle_named_source_witness:
  "GOOGLE_API_KEY scenario_env = Some ''secret'' \<and> ''secret'' \<noteq> [] \<and> ''TEST'' \<noteq> []
   \<and> iexact ''Test'' ''TEST''
   \<and> \<not> iexact ''Test'' ''Tost'' \<and> \<not> iexact ''Test'' ''Tes''
   \<and> lower_char (CHR ''T'') = CHR ''t'' \<and> lower_char (CHR ''t'') = CHR ''t''
   \<and> lower_char (CHR ''9'') = CHR ''9''
   \<and> resolve_sources scenario_env (Some ''TEST'') = Inr [scenario_source]
   \<and> handle (scenario_env\<lparr>scraping_sources := [scenario_source\<lparr>is_active := False\<rparr>]\<rparr>)
        (Some ''TEST'') empty_world =
       (Inr (), \<lparr>pages = [],
          trace = [Log ERROR (''No active source named '' @ sq @ ''TEST'' @ sq @ '' found.'')]\<rparr>)
   \<and> first_live scenario_env = Some \<lparr>list_page_id = 1\<rparr>
   \<and> handle scenario_env (Some ''TEST'') empty_world =
       (case scrape_all scenario_env \<lparr>list_page_id = 1\<rparr> [scenario_source] empty_world of
          (Inl e, w') \<Rightarrow> (Inl e, w')
        | (Inr u, w') \<Rightarrow> (Inr (), logger_info ''All scraping tasks complete.'' w'))"
  using handle_named_source [of scenario_env "''secret''" "''TEST''" empty_world "\<lparr>list_page_id = 1\<rparr>"]
    handle_named_source
      [of "scenario_env\<lparr>scraping_sources := [scenario_source\<lparr>is_active := False\<rparr>]\<rparr>"
          "''secret''" "''TEST''" empty_world "\<lparr>list_page_id = 1\<rparr>"]
  by (simp add: scenario_env_def scenario_source_def empty_world_def first_live_def
      resolve_sources_def iexact_def lower_char_def Let_def del: scrape_all.simps)

text \<open>
  C4, as the claim states it, fails: the schema's \<^verbatim>\<open>title: str\<close> takes the empty string.
  An article object with an empty title, a summary and an http URL is accepted.
\<close>

theorem validate_ArticleList_empty_title_accepted:
  "validate_ArticleList scenario_env
     (PyDict [(''articles'',
        PyList [PyDict [(''title'', PyStr []), (''summary'', PyStr ''S1''),
                        (''source_url'', PyStr ''http://x/a'')]])])
   = Inr [\<lparr>article_title = [], article_summary = ''S1'', article_source_url = ''http://x/a''\<rparr>]"
  by (simp add: validate_ArticleList_def validate_Article_def scenario_env_def http_scheme_def)

text \<open>
  C4, amended. For every parsed JSON value, validation succeeds if and only if the value
  is a mapping whose key \<open>articles\<close> holds a list of objects, each with a string \<open>title\<close>
  (empty or not), a string \<open>summary\<close> and a string \<open>source_url\<close> that the URL validator
  accepts; a mapping that fails is rejected with the schema error; in particular an
  article object without \<open>title\<close>, without \<open>summary\<close>, or with a \<open>source_url\<close> the URL
  validator refuses, makes the whole list fail with the schema error.
\<close>

theorem validate_ArticleList_accepts_iff:
  "((\<exists>as. validate_ArticleList env v = Inr as) \<longleftrightarrow>
      (\<exists>kv items. v = PyDict kv \<and> map_of kv ''articles'' = Some (PyList items)
         \<and> (\<forall>x \<in> set items. \<exists>fields t s u. x = PyDict fields
               \<and> map_of fields ''title'' = Some (PyStr t)
               \<and> map_of fields ''summary'' = Some (PyStr s)
               \<and> map_of fields ''source_url'' = Some (PyStr u)
               \<and> HttpUrl env u \<noteq> None)))
   \<and> (\<forall>kv e. v = PyDict kv \<and> validate_ArticleList env v = Inl e \<longrightarrow> e = schema_error)
   \<and> (\<forall>kv items fields. v = PyDict kv \<and> map_of kv ''articles'' = Some (PyList items)
          \<and> PyDict fields \<in> set items
          \<and> (map_of fields ''title'' = None \<or> map_of fields ''summary'' = None
               \<or> (\<exists>u. map_of fields ''source_url'' = Some (PyStr u) \<and> HttpUrl env u = None))
        \<longrightarrow> validate_ArticleList env v = Inl schema_error)"
proof (intro conjI allI impI)
  show "(\<exists>as. validate_ArticleList env v = Inr as) \<longleftrightarrow>
      (\<exists>kv items. v = PyDict kv \<and> map_of kv ''articles'' = Some (PyList items)
         \<and> (\<forall>x \<in> set items. \<exists>fields t s u. x = PyDict fields
               \<and> map_of fields ''title'' = Some (PyStr t)
               \<and> map_of fields ''summary'' = Some (PyStr s)
               \<and> map_of fields ''source_url'' = Some (PyStr u)
               \<and> HttpUrl env u \<noteq> None))"
    unfolding validate_ArticleList_ok_iff validate_Article_ok_iff ..
next
  fix kv e
  assume "v = PyDict kv \<and> validate_ArticleList env v = Inl e"
  then show "e = schema_error" using validate_ArticleList_error by blast
next
  fix kv items fields
  assume h: "v = PyDict kv \<and> map_of kv ''articles'' = Some (PyList items)
          \<and> PyDict fields \<in> set items
          \<and> (map_of fields ''title'' = None \<or> map_of fields ''summary'' = None
               \<or> (\<exists>u. map_of fields ''source_url'' = Some (PyStr u) \<and> HttpUrl env u = None))"
  then have "\<not> (\<exists>a. validate_Article env (PyDict fields) = Inr a)"
    unfolding validate_Article_ok_iff by auto
  with h have "\<not> (\<exists>as. validate_items env items = Inr as)"
    unfolding validate_items_ok_iff by blast
  with h have "\<not> (\<exists>as. validate_ArticleList env v = Inr as)"
    by (simp add: validate_ArticleList_def)
  then obtain e where "validate_ArticleList env v = Inl e"
    by (cases "validate_ArticleList env v") auto
  with h show "validate_ArticleList env v = Inl schema_error"
    using validate_ArticleList_error by blast
qed

theorem validate_ArticleList_accepts_iff_witness:
  "validate_ArticleList scenario_env scenario_json
     = Inr [\<lparr>article_title = ''T1'', article_summary = ''S1'', article_source_url = ''http://x/a''\<rparr>]
   \<and> PyDict [(''summary'', PyStr ''S1''), (''source_url'', PyStr ''http://x/a'')]
        \<in> set [PyDict [(''summary'', PyStr ''S1''), (''source_url'', PyStr ''http://x/a'')]]
   \<and> map_of [(''summary'', PyStr ''S1''), (''source_url'', PyStr ''http://x/a'')] ''title'' = None
   \<and> validate_ArticleList scenario_env
        (PyDict [(''articles'',
           PyList [PyDict [(''summary'', PyStr ''S1''), (''source_url'', PyStr ''http://x/a'')]])])
       = Inl schema_error
   \<and> HttpUrl scenario_env ''/a'' = None
   \<and> validate_ArticleList scenario_env
        (PyDict [(''articles'',
           PyList [PyDict [(''title'', PyStr ''T1''), (''summary'', PyStr ''S1''),
                           (''source_url'', PyStr ''/a'')]])])
       = Inl schema_error"
  using validate_ArticleList_accepts_iff [of scenario_env scenario_json]
    validate_ArticleList_accepts_iff [of scenario_env
      "PyDict [(''articles'',
           PyList [PyDict [(''summary'', PyStr ''S1''), (''source_url'', PyStr ''http://x/a'')]])]"]
    validate_ArticleList_accepts_iff [of scenario_env
      "PyDict [(''articles'',
           PyList [PyDict [(''title'', PyStr ''T1''), (''summary'', PyStr ''S1''),
                           (''source_url'', PyStr ''/a'')]])]"]
  by (simp add: validate_ArticleList_def validate_Article_def scenario_env_def scenario_json_def
      http_scheme_def)

text \<open>
  C1, as the claim states it, fails: a candidate whose URL is not in the store, is valid
  for the schema and is longer than the 255 characters models.py allows is looked up,
  not found, and refused by the store on insertion; no page is created.
\<close>

theorem upsert_article_long_url_creates_nothing:
  "pages empty_world = []
   \<and> fst (upsert_article scenario_env \<lparr>list_page_id = 1\<rparr> long_url_article empty_world)
       = Inl (Exn DjangoValidationError
                ''source_url: ensure this value has at most 255 characters'')
   \<and> pages (snd (upsert_article scenario_env \<lparr>list_page_id = 1\<rparr> long_url_article empty_world))
       = []"
  by (simp add: upsert_article_def objects_get_def add_child_def constraint_error_def
      emit_def Let_def scenario_env_def empty_world_def long_url_article_def)

text \<open>
  C1, amended. On a store that meets its constraints, for every candidate and every
  outcome of its upsert: when the URL is not in the store, the upsert succeeds exactly
  when the URL has at most 255 characters and the store raises nothing on the insertion,
  and then the pages are the old ones followed by exactly one new page, a child of the
  list page, with the candidate's title, summary and URL; when it raises, the pages are
  unchanged. When the URL is in the store, no outcome changes the number of pages: a
  success overwrites the title and summary of the page with that URL and nothing else,
  a failure leaves the pages unchanged. Every outcome leaves a store that meets its
  constraints, so at most one page per URL; and after a success, any further upsert
  with the same URL adds no page.
\<close>

theorem upsert_article_create_or_update:
  assumes ok: "store_ok (pages w)" and R: "upsert_article env nlp a w = (r, w')"
  shows
    "(article_source_url a \<notin> set (map source_url (pages w)) \<longrightarrow>
        (r = Inr () \<longleftrightarrow>
           length (article_source_url a) \<le> 255
           \<and> db_error env (trace w @ [DbGet (article_source_url a)]) (pages w)
                (new_article_page env (trace w @ [DbGet (article_source_url a)]) a) = None)
        \<and> (r = Inr () \<longrightarrow>
             pages w' = pages w @
               [(new_article_page env (trace w @ [DbGet (article_source_url a)]) a)
                  \<lparr>page_id := fresh_id (pages w), parent_id := list_page_id nlp\<rparr>])
        \<and> (r \<noteq> Inr () \<longrightarrow> pages w' = pages w))
     \<and> (article_source_url a \<in> set (map source_url (pages w)) \<longrightarrow>
        length (pages w') = length (pages w)
        \<and> (r = Inr () \<longrightarrow>
             pages w' =
               map (\<lambda>q. if source_url q = article_source_url a
                         then q\<lparr>title := article_title a, summary := article_summary a\<rparr>
                         else q) (pages w))
        \<and> (r \<noteq> Inr () \<longrightarrow> pages w' = pages w))
     \<and> store_ok (pages w') \<and> distinct (map source_url (pages w'))
     \<and> (r = Inr () \<longrightarrow>
          (\<forall>a2 r2 w2. article_source_url a2 = article_source_url a
             \<longrightarrow> upsert_article env nlp a2 w' = (r2, w2)
             \<longrightarrow> length (pages w2) = length (pages w')))"
proof -
  note out = upsert_article_outcomes [OF ok R]
  have ok': "store_ok (pages w')" using ok R by (rule upsert_article_store_ok)
  have absent: "(r = Inr () \<longleftrightarrow>
           length (article_source_url a) \<le> 255
           \<and> db_error env (trace w @ [DbGet (article_source_url a)]) (pages w)
                (new_article_page env (trace w @ [DbGet (article_source_url a)]) a) = None)
        \<and> (r = Inr () \<longrightarrow>
             pages w' = pages w @
               [(new_article_page env (trace w @ [DbGet (article_source_url a)]) a)
                  \<lparr>page_id := fresh_id (pages w), parent_id := list_page_id nlp\<rparr>])
        \<and> (r \<noteq> Inr () \<longrightarrow> pages w' = pages w)"
    if ab: "article_source_url a \<notin> set (map source_url (pages w))"
  proof (intro conjI impI iffI)
    assume "r = Inr ()"
    with out ab show "length (article_source_url a) \<le> 255" by auto
  next
    assume "r = Inr ()"
    with out ab show "db_error env (trace w @ [DbGet (article_source_url a)]) (pages w)
                (new_article_page env (trace w @ [DbGet (article_source_url a)]) a) = None"
      by auto
  next
    assume "length (article_source_url a) \<le> 255
           \<and> db_error env (trace w @ [DbGet (article_source_url a)]) (pages w)
                (new_article_page env (trace w @ [DbGet (article_source_url a)]) a) = None"
    then have "fst (upsert_article env nlp a w) = Inr ()"
      using ab by (simp add: upsert_article_absent_accepts)
    with R show "r = Inr ()" by simp
  next
    assume "r = Inr ()"
    with out ab show "pages w' = pages w @
               [(new_article_page env (trace w @ [DbGet (article_source_url a)]) a)
                  \<lparr>page_id := fresh_id (pages w), parent_id := list_page_id nlp\<rparr>]"
      by auto
  next
    assume "r \<noteq> Inr ()"
    with out show "pages w' = pages w" by auto
  qed
  have present: "length (pages w') = length (pages w)
        \<and> (r = Inr () \<longrightarrow>
             pages w' =
               map (\<lambda>q. if source_url q = article_source_url a
                         then q\<lparr>title := article_title a, summary := article_summary a\<rparr>
                         else q) (pages w))
        \<and> (r \<noteq> Inr () \<longrightarrow> pages w' = pages w)"
    if pr: "article_source_url a \<in> set (map source_url (pages w))"
  proof -
    from out pr consider
      (updated) "r = Inr ()" "pages w' =
               map (\<lambda>q. if source_url q = article_source_url a
                         then q\<lparr>title := article_title a, summary := article_summary a\<rparr>
                         else q) (pages w)"
      | (unchanged) e where "r = Inl e" "pages w' = pages w"
      by blast
    then show ?thesis
    proof cases
      case updated
      then show ?thesis by simp
    next
      case unchanged
      then show ?thesis by simp
    qed
  qed
  have again: "length (pages w2) = length (pages w')"
    if s: "r = Inr ()" and u: "article_source_url a2 = article_source_url a"
      and R2: "upsert_article env nlp a2 w' = (r2, w2)" for a2 r2 w2
  proof -
    have "article_source_url a \<in> set (map source_url (pages w'))"
    proof (cases "article_source_url a \<in> set (map source_url (pages w))")
      case True
      with present s have "pages w' =
               map (\<lambda>q. if source_url q = article_source_url a
                         then q\<lparr>title := article_title a, summary := article_summary a\<rparr>
                         else q) (pages w)"
        by simp
      then have "list_all2 same_but_title_summary (pages w) (pages w')"
        by (simp add: map_update_same_but)
      then have "map source_url (pages w') = map source_url (pages w)"
        by (rule all2_same_but_fields)
      with True show ?thesis by simp
    next
      case False
      with absent s show ?thesis by simp
    qed
    then have pr2: "article_source_url a2 \<in> set (map source_url (pages w'))" using u by simp
    from upsert_article_outcomes [OF ok' R2] pr2
    consider "pages w2 =
               map (\<lambda>q. if source_url q = article_source_url a2
                         then q\<lparr>title := article_title a2, summary := article_summary a2\<rparr>
                         else q) (pages w')"
      | "pages w2 = pages w'"
      by blast
    then show ?thesis by cases simp_all
  qed
  from ok' have "distinct (map source_url (pages w'))" by (simp add: store_ok_def)
  with absent present ok' again show ?thesis by blast
qed

theorem upsert_article_create_or_update_witness:
  "store_ok (pages empty_world)
   \<and> article_source_url scenario_article \<notin> set (map source_url (pages empty_world))
   \<and> fst (upsert_article scenario_env \<lparr>list_page_id = 1\<rparr> scenario_article empty_world) = Inr ()
   \<and> pages (snd (upsert_article scenario_env \<lparr>list_page_id = 1\<rparr> scenario_article empty_world))
       = [\<lparr>page_id = 1, parent_id = 1, title = ''T1'', slug = ''article-gemini-2'',
           publication_date = 20000, summary = ''S1'', source_url = ''http://x/a'',
           source_name = []\<rparr>]
   \<and> store_ok (pages old_world)
   \<and> article_source_url scenario_article \<in> set (map source_url (pages old_world))
   \<and> fst (upsert_article scenario_env \<lparr>list_page_id = 1\<rparr> scenario_article old_world) = Inr ()
   \<and> pages (snd (upsert_article scenario_env \<lparr>list_page_id = 1\<rparr> scenario_article old_world))
       = [old_page\<lparr>title := ''T1'', summary := ''S1''\<rparr>]
   \<and> store_ok (pages (snd (upsert_article scenario_env \<lparr>list_page_id = 1\<rparr> scenario_article old_world)))"
proof -
  let ?nlp = "\<lparr>list_page_id = 1\<rparr>"
  have ok1: "store_ok (pages empty_world)" and ok2: "store_ok (pages old_world)"
    by (simp_all add: store_ok_def scenario_defs)
  have r1: "upsert_article scenario_env ?nlp scenario_article empty_world =
      (fst (upsert_article scenario_env ?nlp scenario_article empty_world),
       snd (upsert_article scenario_env ?nlp scenario_article empty_world))"
    and r2: "upsert_article scenario_env ?nlp scenario_article old_world =
      (fst (upsert_article scenario_env ?nlp scenario_article old_world),
       snd (upsert_article scenario_env ?nlp scenario_article old_world))"
    by simp_all
  have v: "fst (upsert_article scenario_env ?nlp scenario_article empty_world) = Inr ()"
    "pages (snd (upsert_article scenario_env ?nlp scenario_article empty_world))
       = [\<lparr>page_id = 1, parent_id = 1, title = ''T1'', slug = ''article-gemini-2'',
           publication_date = 20000, summary = ''S1'', source_url = ''http://x/a'',
           source_name = []\<rparr>]"
    "fst (upsert_article scenario_env ?nlp scenario_article old_world) = Inr ()"
    "pages (snd (upsert_article scenario_env ?nlp scenario_article old_world))
       = [old_page\<lparr>title := ''T1'', summary := ''S1''\<rparr>]"
    by (simp_all add: stage_defs scenario_defs fresh_id_def str_nat.simps digit_char_def)
  from upsert_article_create_or_update [OF ok2 r2]
  have "store_ok (pages (snd (upsert_article scenario_env ?nlp scenario_article old_world)))"
    by blast
  with ok1 ok2 v upsert_article_create_or_update [OF ok1 r1] show ?thesis
    by (simp add: scenario_defs)
qed

text \<open>
  C8. On a store that meets its constraints, for every candidate and every outcome of its
  upsert, no page is lost and every page keeps its place, its key, its parent, its slug,
  its publication date, its URL and its source name; a page whose URL is not the
  candidate's is unchanged altogether, and after a successful upsert the page with the
  candidate's URL is the old page with the candidate's title and summary. The same
  holds, but for title and summary, across a whole run of the command: no run deletes a
  page or changes another field of one.
\<close>

theorem upsert_keeps_other_fields:
  assumes ok: "store_ok (pages w)"
  shows
    "(\<forall>r w'. upsert_article env nlp a w = (r, w') \<longrightarrow>
        length (pages w) \<le> length (pages w')
        \<and> (\<forall>i < length (pages w).
              same_but_title_summary (pages w ! i) (pages w' ! i)
              \<and> (source_url (pages w ! i) \<noteq> article_source_url a \<longrightarrow>
                   pages w' ! i = pages w ! i)
              \<and> (source_url (pages w ! i) = article_source_url a \<and> r = Inr () \<longrightarrow>
                   pages w' ! i =
                     (pages w ! i)\<lparr>title := article_title a, summary := article_summary a\<rparr>)))
     \<and> (\<forall>r w'. handle env source_option w = (r, w') \<longrightarrow>
        length (pages w) \<le> length (pages w')
        \<and> (\<forall>i < length (pages w). same_but_title_summary (pages w ! i) (pages w' ! i)))"
proof (intro conjI allI impI)
  fix r w'
  assume R: "upsert_article env nlp a w = (r, w')"
  from ok R have k: "kept (pages w) (pages w')" by (rule upsert_article_kept)
  then show "length (pages w) \<le> length (pages w')" by (simp add: kept_nth)
  fix i
  assume i: "i < length (pages w)"
  with k show "same_but_title_summary (pages w ! i) (pages w' ! i)" by (simp add: kept_nth)
  {
    assume "source_url (pages w ! i) \<noteq> article_source_url a"
    with ok R i show "pages w' ! i = pages w ! i" by (rule upsert_article_other_rows)
  }
  {
    assume h: "source_url (pages w ! i) = article_source_url a \<and> r = Inr ()"
    with i have "article_source_url a \<in> set (map source_url (pages w))"
      by (metis nth_mem image_eqI set_map)
    with upsert_article_outcomes [OF ok R] h
    have "pages w' =
        map (\<lambda>q. if source_url q = article_source_url a
                  then q\<lparr>title := article_title a, summary := article_summary a\<rparr>
                  else q) (pages w)"
      by auto
    with i h show "pages w' ! i =
        (pages w ! i)\<lparr>title := article_title a, summary := article_summary a\<rparr>"
      by simp
  }
next
  fix r w'
  assume R: "handle env source_option w = (r, w')"
  from handle_store [OF ok R] have k: "kept (pages w) (pages w')" by simp
  then show "length (pages w) \<le> length (pages w')" by (simp add: kept_nth)
  fix i
  assume "i < length (pages w)"
  with k show "same_but_title_summary (pages w ! i) (pages w' ! i)" by (simp add: kept_nth)
qed

theorem upsert_keeps_other_fields_witness:
  "store_ok (pages old_world)
   \<and> (0::nat) < length (pages old_world)
   \<and> source_url (pages old_world ! 0) = article_source_url scenario_article
   \<and> fst (upsert_article scenario_env \<lparr>list_page_id = 1\<rparr> scenario_article old_world) = Inr ()
   \<and> pages (snd (upsert_article scenario_env \<lparr>list_page_id = 1\<rparr> scenario_article old_world)) ! 0
       = \<lparr>page_id = 7, parent_id = 1, title = ''T1'', slug = ''old-slug'',
          publication_date = 19000, summary = ''S1'', source_url = ''http://x/a'',
          source_name = ''Test''\<rparr>
   \<and> same_but_title_summary old_page (pages (snd (handle scenario_env None old_world)) ! 0)"
proof -
  let ?nlp = "\<lparr>list_page_id = 1\<rparr>"
  have ok: "store_ok (pages old_world)"
    by (simp add: store_ok_def scenario_defs)
  have i: "(0::nat) < length (pages old_world)"
    and u: "source_url (pages old_world ! 0) = article_source_url scenario_article"
    and p0: "pages old_world ! 0 = old_page"
    by (simp_all add: scenario_defs)
  have s: "fst (upsert_article scenario_env ?nlp scenario_article old_world) = Inr ()"
    by (simp add: stage_defs scenario_defs)
  note T = upsert_keeps_other_fields [OF ok, of scenario_env ?nlp scenario_article None]
  have r2: "upsert_article scenario_env ?nlp scenario_article old_world =
        (fst (upsert_article scenario_env ?nlp scenario_article old_world),
         snd (upsert_article scenario_env ?nlp scenario_article old_world))"
    by simp
  from T r2 have "\<forall>i < length (pages old_world).
         source_url (pages old_world ! i) = article_source_url scenario_article
         \<and> fst (upsert_article scenario_env ?nlp scenario_article old_world) = Inr () \<longrightarrow>
         pages (snd (upsert_article scenario_env ?nlp scenario_article old_world)) ! i =
           (pages old_world ! i)\<lparr>title := article_title scenario_article,
                                   summary := article_summary scenario_article\<rparr>"
    by blast
  with i have "source_url (pages old_world ! 0) = article_source_url scenario_article
         \<and> fst (upsert_article scenario_env ?nlp scenario_article old_world) = Inr () \<longrightarrow>
         pages (snd (upsert_article scenario_env ?nlp scenario_article old_world)) ! 0 =
           (pages old_world ! 0)\<lparr>title := article_title scenario_article,
                                   summary := article_summary scenario_article\<rparr>"
    by blast
  with u s have a: "pages (snd (upsert_article scenario_env ?nlp scenario_article old_world)) ! 0 =
      (pages old_world ! 0)\<lparr>title := article_title scenario_article,
                              summary := article_summary scenario_article\<rparr>"
    by blast
  have r3: "handle scenario_env None old_world =
        (fst (handle scenario_env None old_world), snd (handle scenario_env None old_world))"
    by simp
  from T r3 have "\<forall>i < length (pages old_world).
         same_but_title_summary (pages old_world ! i)
           (pages (snd (handle scenario_env None old_world)) ! i)"
    by blast
  with i have "same_but_title_summary (pages old_world ! 0)
           (pages (snd (handle scenario_env None old_world)) ! 0)"
    by blast
  with p0 have b: "same_but_title_summary old_page (pages (snd (handle scenario_env None old_world)) ! 0)"
    by simp
  from a have "pages (snd (upsert_article scenario_env ?nlp scenario_article old_world)) ! 0
       = \<lparr>page_id = 7, parent_id = 1, title = ''T1'', slug = ''old-slug'',
          publication_date = 19000, summary = ''S1'', source_url = ''http://x/a'',
          source_name = ''Test''\<rparr>"
    by (simp add: scenario_defs)
  with ok i u s b show ?thesis by simp
qed

text \<open>
  C3. The claim does not hold of the code: the loop over the articles catches
  \<^verbatim>\<open>NewsArticlePage.DoesNotExist\<close> and nothing else, so an exception of the store is
  neither caught nor logged. In the run below the model returns three articles for the
  first source, and the table refuses the URL of the second. The first article is
  inserted; the insertion of the second raises, and that exception is the result of
  \<open>handle\<close>; no error record is logged; the third article is never looked up and the
  second source is never fetched.
\<close>

theorem handle_stops_at_refused_article:
  "fst (handle crowded_env None empty_world)
     = Inl (Exn DjangoValidationError
              ''source_url: ensure this value has at most 255 characters'')
   \<and> map source_url (pages (snd (handle crowded_env None empty_world)))
       = [''https://example.com/a'']
   \<and> filter is_log (trace (snd (handle crowded_env None empty_world)))
       = [Log INFO ''Scraping source: Good'', Log INFO (''Added: '' @ sq @ ''T1'' @ sq)]
   \<and> DbGet ''https://example.com/c'' \<notin> set (trace (snd (handle crowded_env None empty_world)))
   \<and> HttpGet ''https://down.example.com/news''
       \<notin> set (trace (snd (handle crowded_env None empty_world)))"
  by (simp add: stage_defs newsroom_defs run_defs crowded_env_def crowded_json_def
        fresh_id_def single_is_not_long clean_json_response_crowded
      del: clean_json_response.simps)

text \<open>
  C2, as the claim states it, fails. Without the API key the command returns after one
  error record and logs no final line. With a first source whose selector the HTML
  library refuses, and with a store that raises on the first write, the exception
  leaves \<open>handle\<close>: the second source is never started and no final line is logged.
\<close>

theorem handle_ends_without_final_line_or_raises:
  "fst (handle (newsroom_env\<lparr>GOOGLE_API_KEY := None\<rparr>) None empty_world) = Inr ()
   \<and> filter is_log (trace (snd (handle (newsroom_env\<lparr>GOOGLE_API_KEY := None\<rparr>) None empty_world)))
       = [Log ERROR ''Config failed: GOOGLE_API_KEY not found.'']
   \<and> fst (handle
            (newsroom_env\<lparr>scraping_sources :=
               [good_source\<lparr>name := ''Broken'', html_selector := ''div[''\<rparr>, good_source]\<rparr>)
            None empty_world)
       = Inl (Exn OtherException ''Malformed attribute selector'')
   \<and> filter is_log (trace (snd (handle
            (newsroom_env\<lparr>scraping_sources :=
               [good_source\<lparr>name := ''Broken'', html_selector := ''div[''\<rparr>, good_source]\<rparr>)
            None empty_world)))
       = [Log INFO ''Scraping source: Broken'']
   \<and> fst (handle
            (newsroom_env\<lparr>scraping_sources := [good_source, chatty_source],
               db_error := (\<lambda>tr ps p. Some (Exn DatabaseError ''connection lost''))\<rparr>)
            None empty_world)
       = Inl (Exn DatabaseError ''connection lost'')
   \<and> filter is_log (trace (snd (handle
            (newsroom_env\<lparr>scraping_sources := [good_source, chatty_source],
               db_error := (\<lambda>tr ps p. Some (Exn DatabaseError ''connection lost''))\<rparr>)
            None empty_world)))
       = [Log INFO ''Scraping source: Good'']"
  by (simp add: stage_defs newsroom_defs run_defs)

text \<open>
  C2, amended. When the API key is missing, the named source matches no active source,
  or no live list page exists, the command raises nothing and returns after exactly one
  error record, with no final line. Otherwise, take any run in which, at the calls the
  run itself makes, the fetch block of each source raises nothing but request
  exceptions, the model call, the reading of its text and the JSON parser raise nothing
  but subclasses of \<^verbatim>\<open>Exception\<close>, every lookup finds at most one page and the store
  accepts every insertion and save. Then the command raises nothing, its last record is
  the final line, and every resolved source was started, whatever failure the sources
  before it ended in. What happens when the store or the HTML library raises something
  else is neither promised nor denied here.
\<close>

theorem handle_returns_and_completes:
  "(configure env \<noteq> Inr () \<or> (\<exists>n. resolve_sources env source_option = Inl n)
        \<or> first_live env = None \<longrightarrow>
        fst (handle env source_option w) = Inr ()
        \<and> (\<exists>m. snd (handle env source_option w) = w\<lparr>trace := trace w @ [Log ERROR m]\<rparr>))
   \<and> (configure env = Inr () \<and> resolve_sources env source_option = Inr sources
        \<and> first_live env = Some nlp \<and> run_contained env nlp sources w \<longrightarrow>
        fst (handle env source_option w) = Inr ()
        \<and> last (trace (snd (handle env source_option w)))
            = Log INFO ''All scraping tasks complete.''
        \<and> (\<forall>s \<in> set sources. Log INFO (''Scraping source: '' @ name s)
              \<in> set (drop (length (trace w)) (trace (snd (handle env source_option w))))))"
proof (intro conjI impI)
  assume h: "configure env \<noteq> Inr () \<or> (\<exists>n. resolve_sources env source_option = Inl n)
        \<or> first_live env = None"
  have one: "fst (handle env source_option w) = Inr ()
        \<and> (\<exists>m. snd (handle env source_option w) = w\<lparr>trace := trace w @ [Log ERROR m]\<rparr>)"
    if "handle env source_option w = (Inr (), w\<lparr>trace := trace w @ [Log ERROR m]\<rparr>)" for m
  proof -
    from that have "fst (handle env source_option w) = Inr ()"
      and "snd (handle env source_option w) = w\<lparr>trace := trace w @ [Log ERROR m]\<rparr>"
      by simp_all
    then show ?thesis by blast
  qed
  have r: "fst (handle env source_option w) = Inr ()
        \<and> (\<exists>m. snd (handle env source_option w) = w\<lparr>trace := trace w @ [Log ERROR m]\<rparr>)"
  proof (cases "configure env")
    case (Inl e)
    then have "e = Exn ValueError ''GOOGLE_API_KEY not found.''"
      by (auto simp: configure_def split: option.splits if_splits)
    with Inl have "handle env source_option w =
        (Inr (), w\<lparr>trace := trace w @ [Log ERROR (''Config failed: '' @ exn_msg e)]\<rparr>)"
      by (simp add: handle_def logger_error_def emit_def)
    then show ?thesis by (rule one)
  next
    case (Inr u)
    note c = this
    show ?thesis
    proof (cases "resolve_sources env source_option")
      case (Inl n)
      with c have "handle env source_option w =
          (Inr (), w\<lparr>trace := trace w @
             [Log ERROR (''No active source named '' @ sq @ n @ sq @ '' found.'')]\<rparr>)"
        by (simp add: handle_def logger_error_def emit_def)
      then show ?thesis by (rule one)
    next
      case (Inr srcs)
      with h c have "first_live env = None" by auto
      with c Inr have "handle env source_option w =
          (Inr (), w\<lparr>trace := trace w @
             [Log ERROR (''A '' @ sq @ ''NewsListPage'' @ sq @ '' must be created in Wagtail first.'')]\<rparr>)"
        by (simp add: handle_def logger_error_def emit_def)
      then show ?thesis by (rule one)
    qed
  qed
  from r show "fst (handle env source_option w) = Inr ()" by blast
  from r show "\<exists>m. snd (handle env source_option w) = w\<lparr>trace := trace w @ [Log ERROR m]\<rparr>"
    by blast
next
  assume h: "configure env = Inr () \<and> resolve_sources env source_option = Inr sources
        \<and> first_live env = Some nlp \<and> run_contained env nlp sources w"
  then have "run_contained env nlp sources w" by simp
  from run_contained_returns [OF this]
  obtain w' evs where a: "scrape_all env nlp sources w = (Inr (), w')"
    and t: "trace w' = trace w @ evs"
    and l: "\<forall>s \<in> set sources. Log INFO (''Scraping source: '' @ name s) \<in> set evs"
    by blast
  from h a have hd: "handle env source_option w =
      (Inr (), logger_info ''All scraping tasks complete.'' w')"
    by (simp add: handle_def)
  have "trace (logger_info ''All scraping tasks complete.'' w') =
      trace w @ (evs @ [Log INFO ''All scraping tasks complete.''])"
    using t by simp
  then have d: "drop (length (trace w)) (trace (logger_info ''All scraping tasks complete.'' w'))
      = evs @ [Log INFO ''All scraping tasks complete.'']"
    by simp
  show "fst (handle env source_option w) = Inr ()" unfolding hd by simp
  show "last (trace (snd (handle env source_option w))) = Log INFO ''All scraping tasks complete.''"
    unfolding hd by simp
  show "\<forall>s \<in> set sources. Log INFO (''Scraping source: '' @ name s)
          \<in> set (drop (length (trace w)) (trace (snd (handle env source_option w))))"
    using l unfolding hd snd_conv d by simp
qed

theorem handle_returns_and_completes_witness:
  "configure newsroom_env = Inr ()
   \<and> resolve_sources newsroom_env None = Inr [down_source, chatty_source, good_source]
   \<and> first_live newsroom_env = Some \<lparr>list_page_id = 1\<rparr>
   \<and> run_contained newsroom_env \<lparr>list_page_id = 1\<rparr>
        [down_source, chatty_source, good_source] empty_world
   \<and> fst (handle newsroom_env None empty_world) = Inr ()
   \<and> last (trace (snd (handle newsroom_env None empty_world)))
       = Log INFO ''All scraping tasks complete.''
   \<and> filter is_log (trace (snd (handle newsroom_env None empty_world)))
       = [Log INFO ''Scraping source: Down'',
          Log ERROR ''URL fetch error: connection refused'',
          Log INFO ''Scraping source: Chatty'',
          Log ERROR (''Could not find a valid JSON object in Gemini'' @ sq @ ''s response.''),
          Log ERROR (''--- RAW RESPONSE ---'' @ nl @ ''not json at all'' @ nl @ ''---''),
          Log INFO ''Scraping source: Good'',
          Log INFO (''Added: '' @ sq @ ''T1'' @ sq),
          Log INFO ''All scraping tasks complete.'']
   \<and> map source_url (pages (snd (handle newsroom_env None empty_world)))
       = [''https://good.example.com/a'']
   \<and> first_live (newsroom_env\<lparr>live_list_pages := []\<rparr>) = None
   \<and> handle (newsroom_env\<lparr>live_list_pages := []\<rparr>) None empty_world
       = (Inr (),
          \<lparr>pages = [],
           trace = [Log ERROR (''A '' @ sq @ ''NewsListPage'' @ sq
                      @ '' must be created in Wagtail first.'')]\<rparr>)"
proof -
  let ?nlp = "\<lparr>list_page_id = 1\<rparr>"
  let ?sources = "[down_source, chatty_source, good_source]"
  have g: "configure newsroom_env = Inr ()"
    "resolve_sources newsroom_env None = Inr ?sources"
    "first_live newsroom_env = Some ?nlp"
    "first_live (newsroom_env\<lparr>live_list_pages := []\<rparr>) = None"
    by (simp_all add: run_defs newsroom_defs)
  have c: "run_contained newsroom_env ?nlp ?sources empty_world"
    by (simp add: stage_defs newsroom_defs contained_defs)
  note T1 = handle_returns_and_completes
    [where env = newsroom_env and w = empty_world and source_option = None
       and sources = ?sources and nlp = ?nlp]
  note T2 = handle_returns_and_completes
    [where env = "newsroom_env\<lparr>live_list_pages := []\<rparr>" and w = empty_world
       and source_option = None and sources = ?sources and nlp = ?nlp]
  from T1 g c have a: "fst (handle newsroom_env None empty_world) = Inr ()"
    and b: "last (trace (snd (handle newsroom_env None empty_world)))
       = Log INFO ''All scraping tasks complete.''"
    by blast+
  from T2 g have d: "fst (handle (newsroom_env\<lparr>live_list_pages := []\<rparr>) None empty_world) = Inr ()"
    by blast
  have e: "filter is_log (trace (snd (handle newsroom_env None empty_world)))
       = [Log INFO ''Scraping source: Down'',
          Log ERROR ''URL fetch error: connection refused'',
          Log INFO ''Scraping source: Chatty'',
          Log ERROR (''Could not find a valid JSON object in Gemini'' @ sq @ ''s response.''),
          Log ERROR (''--- RAW RESPONSE ---'' @ nl @ ''not json at all'' @ nl @ ''---''),
          Log INFO ''Scraping source: Good'',
          Log INFO (''Added: '' @ sq @ ''T1'' @ sq),
          Log INFO ''All scraping tasks complete.'']"
    "map source_url (pages (snd (handle newsroom_env None empty_world)))
       = [''https://good.example.com/a'']"
    by (simp_all add: stage_defs newsroom_defs run_defs fresh_id_def)
  have f: "handle (newsroom_env\<lparr>live_list_pages := []\<rparr>) None empty_world
       = (Inr (),
          \<lparr>pages = [],
           trace = [Log ERROR (''A '' @ sq @ ''NewsListPage'' @ sq
                      @ '' must be created in Wagtail first.'')]\<rparr>)"
    using d by (simp add: stage_defs newsroom_defs run_defs)
  from g c a b e f show ?thesis by simp
qed

end
